theory Spec2Isabelle
  imports Complex_Main "HOL-Library.Sublist" "HOL-Library.Multiset"
    "HOL-Library.Char_ord" "HOL-Library.List_Lexorder" "HOL-Library.Log_Nat"
begin

section \<open>JavaScript primitives used by app.js\<close>

text \<open>
  Strings are byte strings (\<^typ>\<open>string\<close>); a property that may be absent
  (\<^verbatim>\<open>undefined\<close>) is an \<^typ>\<open>'a option\<close>.  A string is truthy exactly when it is
  not empty, so \<^verbatim>\<open>x || d\<close> on an optional string yields \<open>d\<close> for
  \<^verbatim>\<open>undefined\<close> and for \<^verbatim>\<open>''\<close>.
\<close>

definition js_or :: "string option \<Rightarrow> string \<Rightarrow> string" where
  "js_or x d = (case x of None \<Rightarrow> d | Some v \<Rightarrow> if v = [] then d else v)"

text \<open>White space in the ASCII range: TAB, LF, VT, FF, CR and SPACE.\<close>

definition isWhiteSpace :: "char \<Rightarrow> bool" where
  "isWhiteSpace c = (c \<in> set [CHR 0x09, CHR 0x0A, CHR 0x0B, CHR 0x0C, CHR 0x0D, CHR 0x20])"

text \<open>\<^verbatim>\<open>String.prototype.trim\<close>.\<close>

definition trim :: "string \<Rightarrow> string" where
  "trim s = rev (dropWhile isWhiteSpace (rev (dropWhile isWhiteSpace s)))"

text \<open>
  \<^verbatim>\<open>s.split(c)\<close> for a one-character separator: the pieces between the
  separators, one piece (the empty string) for the empty input.
\<close>

fun split :: "char \<Rightarrow> string \<Rightarrow> string list" where
  "split c [] = [[]]"
| "split c (x # xs) =
     (if x = c then [] # split c xs
      else (case split c xs of [] \<Rightarrow> [[x]] | w # ws \<Rightarrow> (x # w) # ws))"

text \<open>
  \<^verbatim>\<open>parseInt(s)\<close> without a radix: leading white space is skipped, then an
  optional sign, then an optional \<^verbatim>\<open>0x\<close> prefix that selects base 16; the longest
  run of digits is read and whatever follows is ignored.  The result \<^verbatim>\<open>NaN\<close> (no
  digit) is \<open>None\<close>.  The result given here is the mathematical value of the digits;
  the source holds the double nearest to it, and \<open>arrivalMinutes\<close> below, which
  computes with the value, rounds it first.
\<close>

definition digitValue :: "char \<Rightarrow> nat option" where
  "digitValue c =
     (let n = (of_char c :: nat) in
      if 48 \<le> n \<and> n \<le> 57 then Some (n - 48)
      else if 97 \<le> n \<and> n \<le> 122 then Some (n - 87)
      else if 65 \<le> n \<and> n \<le> 90 then Some (n - 55)
      else None)"

definition isDigit :: "nat \<Rightarrow> char \<Rightarrow> bool" where
  "isDigit R c = (case digitValue c of None \<Rightarrow> False | Some d \<Rightarrow> d < R)"

definition digitsValue :: "nat \<Rightarrow> string \<Rightarrow> int" where
  "digitsValue R Z = foldl (\<lambda>acc c. acc * int R + int (case digitValue c of None \<Rightarrow> 0 | Some d \<Rightarrow> d)) 0 Z"

definition parseInt :: "string \<Rightarrow> int option" where
  "parseInt inputString =
     (let S = dropWhile isWhiteSpace inputString;
          (sign, S1) = (case S of [] \<Rightarrow> (1, S)
                        | c # r \<Rightarrow> if c = CHR ''-'' then (- 1, r)
                                  else if c = CHR ''+'' then (1, r) else (1 :: int, S));
          (R, S2) = (case S1 of
                       a # b # r \<Rightarrow> if a = CHR ''0'' \<and> (b = CHR ''x'' \<or> b = CHR ''X'')
                                    then (16, r) else (10 :: nat, S1)
                     | _ \<Rightarrow> (10, S1));
          Z = takeWhile (isDigit R) S2
      in if Z = [] then None else Some (sign * digitsValue R Z))"

text \<open>
  \<^verbatim>\<open>xs.slice(0, n)\<close>: a negative end counts from the end of the array, and both
  cases are clamped to the array.
\<close>

definition slice0 :: "'a list \<Rightarrow> int \<Rightarrow> 'a list" where
  "slice0 xs n = (if n < 0 then take (nat (int (length xs) + n)) xs else take (nat n) xs)"

section \<open>Numbers\<close>

text \<open>
  A JavaScript number is an IEEE 754 double.  \<open>toDouble x\<close> is the double nearest to
  the real number \<open>x\<close>: 53 significant bits, ties to the even significand.  The
  exponent range is not bounded here, so overflow to \<^verbatim>\<open>Infinity\<close> (beyond about
  \<open>1.8e308\<close>) and the subnormal numbers (below about \<open>2.2e-308\<close>) are outside the
  model.  \<open>exponentOf x\<close> is the binary exponent \<open>\<lfloor>log\<^sub>2 x\<rfloor>\<close> of a positive \<open>x\<close>.
\<close>

definition roundTiesToEven :: "real \<Rightarrow> int" where
  "roundTiesToEven x =
     (let f = \<lfloor>x\<rfloor> in
      if x - of_int f < 1 / 2 then f
      else if 1 / 2 < x - of_int f then f + 1
      else if even f then f else f + 1)"

definition exponentOf :: "real \<Rightarrow> int" where
  "exponentOf x =
     (if 1 \<le> x then bitlen \<lfloor>x\<rfloor> - 1
      else let j = bitlen \<lfloor>1 / x\<rfloor> - 1
           in if x * 2 powi j = 1 then - j else - j - 1)"

definition toDouble :: "real \<Rightarrow> real" where
  "toDouble x =
     (if x = 0 then 0
      else let q = exponentOf \<bar>x\<bar> - 52
           in of_int (roundTiesToEven (x / 2 powi q)) * 2 powi q)"

section \<open>Plain objects\<close>

text \<open>
  The lookup tables of app.js are plain objects (\<^verbatim>\<open>{}\<close>) read with \<^verbatim>\<open>obj[key]\<close>.
  Such a read finds an own property first and then the properties of
  \<^verbatim>\<open>Object.prototype\<close>: eleven methods, listed here with the \<^verbatim>\<open>length\<close> of each
  function, and the accessor \<^verbatim>\<open>__proto__\<close>, whose value is \<^verbatim>\<open>Object.prototype\<close>
  itself.  All of these values are truthy.
\<close>

definition objectMethods :: "(string \<times> nat) list" where
  "objectMethods =
     [(''constructor'', 1), (''__defineGetter__'', 2), (''__defineSetter__'', 2),
      (''hasOwnProperty'', 1), (''__lookupGetter__'', 1), (''__lookupSetter__'', 1),
      (''isPrototypeOf'', 1), (''propertyIsEnumerable'', 1), (''toString'', 0),
      (''valueOf'', 0), (''toLocaleString'', 0)]"

datatype inherited = Method string | ObjectPrototype

definition inheritedProperty :: "string \<Rightarrow> inherited option" where
  "inheritedProperty k =
     (if k = ''__proto__'' then Some ObjectPrototype
      else if k \<in> set (map fst objectMethods) then Some (Method k)
      else None)"

text \<open>
  The result of \<^verbatim>\<open>obj[key]\<close> on an object whose own properties are the map
  \<open>obj\<close>.
\<close>

datatype 'a property = Undefined | Own 'a | Inherited inherited

definition getProperty :: "(string \<rightharpoonup> 'a) \<Rightarrow> string \<Rightarrow> 'a property" where
  "getProperty obj k =
     (case obj k of
        Some v \<Rightarrow> Own v
      | None \<Rightarrow> (case inheritedProperty k of Some i \<Rightarrow> Inherited i | None \<Rightarrow> Undefined))"

text \<open>A property key: \<^verbatim>\<open>obj[undefined]\<close> is the key \<^verbatim>\<open>'undefined'\<close>.\<close>

definition propertyKey :: "string option \<Rightarrow> string" where
  "propertyKey k = (case k of None \<Rightarrow> ''undefined'' | Some v \<Rightarrow> v)"

text \<open>
  The one exception that the modelled code can raise by itself: calling a method that
  the value does not have (\<^verbatim>\<open>x.includes is not a function\<close>,
  \<^verbatim>\<open>x.map is not a function\<close>).
\<close>

datatype jsError = TypeError

section \<open>Station directory\<close>

text \<open>
  A row of stations.csv.  All five fields are kept as the strings that
  \<^verbatim>\<open>split(',')\<close> produced.
\<close>

record station =
  st_id :: string
  st_name :: string
  lat :: string
  lon :: string
  parent_id :: string

text \<open>
  The module-level objects \<^verbatim>\<open>stationMap\<close> and \<^verbatim>\<open>parentMap\<close> (their own
  properties) and the local list \<^verbatim>\<open>stationsList\<close> of \<^verbatim>\<open>loadStations\<close>, in file
  order.  \<open>loadFailed\<close> says that the \<^verbatim>\<open>try\<close> block was left by an exception: the
  global \<^verbatim>\<open>stations\<close> is then \<^verbatim>\<open>[]\<close>, and otherwise the list sorted with
  \<^verbatim>\<open>localeCompare\<close>; only the station listing endpoint reads it.  The two objects keep
  whatever was written to them before the exception.

  The assignment \<^verbatim>\<open>stationMap['__proto__'] = station\<close> creates no property: it makes
  the station object the prototype of \<^verbatim>\<open>stationMap\<close>, which \<open>stationMapProto\<close>
  records.  \<^verbatim>\<open>parentMap\<close> never receives such an assignment.
\<close>

record directory =
  stationsList :: "station list"
  loadFailed :: bool
  stationMap :: "string \<rightharpoonup> station"
  stationMapProto :: "station option"
  parentMap :: "string \<rightharpoonup> string list"

definition emptyDirectory :: directory where
  "emptyDirectory = \<lparr>stationsList = [], loadFailed = False, stationMap = Map.empty,
                      stationMapProto = None, parentMap = Map.empty\<rparr>"

text \<open>\<^verbatim>\<open>stationMap[station.id] = station\<close>.\<close>

definition setStation :: "station \<Rightarrow> directory \<Rightarrow> directory" where
  "setStation station d =
     (if st_id station = ''__proto__'' then d\<lparr>stationMapProto := Some station\<rparr>
      else d\<lparr>stationMap := (stationMap d)(st_id station \<mapsto> station)\<rparr>)"

text \<open>
  The body of the \<^verbatim>\<open>for\<close> loop of \<^verbatim>\<open>loadStations\<close> for one line.  When
  \<^verbatim>\<open>parentMap[station.parent_id]\<close> is an inherited value, it is truthy, no array is
  created, and \<^verbatim>\<open>.includes\<close> is not a function of it: the call throws, after the
  station has been pushed and written to \<^verbatim>\<open>stationMap\<close>.
\<close>

definition loadLine :: "string \<Rightarrow> directory \<Rightarrow> directory" where
  "loadLine row d =
     (let parts = split CHR '','' row in
      if length parts \<ge> 5 then
        let station = \<lparr>st_id = parts ! 0, st_name = parts ! 1, lat = parts ! 2,
                         lon = parts ! 3, parent_id = parts ! 4\<rparr>;
            d1 = setStation station (d\<lparr>stationsList := stationsList d @ [station]\<rparr>)
        in (case getProperty (parentMap d1) (parent_id station) of
              Undefined \<Rightarrow> d1\<lparr>parentMap := (parentMap d1)(parent_id station \<mapsto> [st_id station])\<rparr>
            | Own members \<Rightarrow>
                if st_id station \<in> set members then d1
                else d1\<lparr>parentMap := (parentMap d1)(parent_id station \<mapsto> members @ [st_id station])\<rparr>
            | Inherited v \<Rightarrow> d1\<lparr>loadFailed := True\<rparr>)
      else d)"

text \<open>The loop over the lines: an exception ends it.\<close>

fun loadLines :: "string list \<Rightarrow> directory \<Rightarrow> directory" where
  "loadLines [] d = d"
| "loadLines (row # rows) d =
     (let d1 = loadLine row d in if loadFailed d1 then d1 else loadLines rows d1)"

text \<open>
  \<^verbatim>\<open>loadStations\<close>: the file content is \<open>None\<close> when \<^verbatim>\<open>readFileSync\<close> throws;
  the loop starts at index 1, after the header line.
\<close>

definition loadStations :: "string option \<Rightarrow> directory" where
  "loadStations csv =
     (case csv of
        None \<Rightarrow> emptyDirectory\<lparr>loadFailed := True\<rparr>
      | Some raw \<Rightarrow> loadLines (drop 1 (split CHR 0x0A (trim raw))) emptyDirectory)"

text \<open>
  The value of \<^verbatim>\<open>stationMap[key]\<close>: an own property, or a property of the prototype
  of \<^verbatim>\<open>stationMap\<close>.  When that prototype is a station object, the accessor
  \<^verbatim>\<open>__proto__\<close> gives this object, its five fields are inherited as strings, and the
  methods of \<^verbatim>\<open>Object.prototype\<close> are inherited through it.
\<close>

datatype stationValue =
  NoValue | StationObject station | FieldValue string | InheritedValue inherited

definition getStation :: "directory \<Rightarrow> string \<Rightarrow> stationValue" where
  "getStation d k =
     (case stationMap d k of
        Some st \<Rightarrow> StationObject st
      | None \<Rightarrow>
          (case stationMapProto d of
             None \<Rightarrow> (case inheritedProperty k of Some i \<Rightarrow> InheritedValue i | None \<Rightarrow> NoValue)
           | Some p \<Rightarrow>
               if k = ''__proto__'' then StationObject p
               else (case map_of [(''id'', st_id p), (''name'', st_name p), (''lat'', lat p),
                                  (''lon'', lon p), (''parent_id'', parent_id p)] k of
                       Some v \<Rightarrow> FieldValue v
                     | None \<Rightarrow> (case inheritedProperty k of
                                   Some i \<Rightarrow> InheritedValue i | None \<Rightarrow> NoValue))))"

text \<open>
  The value of the variable \<^verbatim>\<open>platformIds\<close>: an array of ids, or an inherited value
  that came out of \<^verbatim>\<open>parentMap\<close>.
\<close>

datatype platformIds = IdArray "string list" | NotArray inherited

text \<open>
  \<^verbatim>\<open>getRelatedStationIds\<close>.  A value that is not a station object has no
  \<^verbatim>\<open>parent_id\<close>, so \<^verbatim>\<open>parentMap\<close> is then read at the key \<^verbatim>\<open>'undefined'\<close>;
  the empty string is the one such value that is falsy.
\<close>

definition getRelatedStationIds :: "directory \<Rightarrow> string \<Rightarrow> platformIds" where
  "getRelatedStationIds d stationId =
     (let station = getStation d stationId in
      if station = NoValue \<or> station = FieldValue [] then IdArray [stationId]
      else
        let parentId = (case station of StationObject st \<Rightarrow> Some (parent_id st) | _ \<Rightarrow> None)
        in (case getProperty (parentMap d) (propertyKey parentId) of
              Own ids \<Rightarrow> IdArray ids
            | Inherited v \<Rightarrow> NotArray v
            | Undefined \<Rightarrow> IdArray [stationId]))"

text \<open>
  \<^verbatim>\<open>platformIds.length === 0\<close>: the length of an array, the \<^verbatim>\<open>length\<close> of a
  function, and \<^verbatim>\<open>undefined\<close> for \<^verbatim>\<open>Object.prototype\<close>.
\<close>

definition lengthIsZero :: "platformIds \<Rightarrow> bool" where
  "lengthIsZero p =
     (case p of
        IdArray ids \<Rightarrow> length ids = 0
      | NotArray (Method k) \<Rightarrow> map_of objectMethods k = Some 0
      | NotArray ObjectPrototype \<Rightarrow> False)"

text \<open>
  The resolution that the routes and arrivals handlers both start with:
  \<^verbatim>\<open>parentMap[stationId] || []\<close>, and \<^verbatim>\<open>getRelatedStationIds\<close> when the length of
  that is 0.
\<close>

definition resolveComplex :: "directory \<Rightarrow> string \<Rightarrow> platformIds" where
  "resolveComplex d stationId =
     (let platformIds = (case getProperty (parentMap d) stationId of
                           Own ids \<Rightarrow> IdArray ids
                         | Inherited v \<Rightarrow> NotArray v
                         | Undefined \<Rightarrow> IdArray [])
      in if lengthIsZero platformIds then getRelatedStationIds d stationId else platformIds)"

section \<open>Upstream responses\<close>

text \<open>
  The decoded JSON of the stop resource and of the routes resource, every
  property optional as the code treats it.
\<close>

record Departure =
  dep_time :: "string option"

record RouteRef =
  route_ref_id :: "string option"

record DestinationRef =
  dest_name :: "string option"

record Trip =
  route :: "RouteRef option"
  destination :: "DestinationRef option"

record StopTime =
  departure :: "Departure option"
  trip :: "Trip option"

record StopData =
  stop_name :: "string option"
  stopTimes :: "StopTime list option"

record Alert =
  cause :: "string option"
  effect :: "string option"

record RouteInfo =
  route_info_id :: "string option"
  alerts :: "Alert list option"

record RoutesData =
  routes :: "RouteInfo list option"

text \<open>
  What one request sees of the outside: the clock \<^verbatim>\<open>Date.now()\<close>, a whole number
  of milliseconds, and the two upstream resources.  The platform fetches of one request
  read the clock in the same synchronous step, before any reply arrives, and are given
  one clock value.  \<open>None\<close> stands for any exception inside the \<^verbatim>\<open>try\<close> block
  that issues the call (network failure, a body that is not JSON, a value of the wrong
  shape).
\<close>

record env =
  now :: int
  stopsApi :: "string \<Rightarrow> StopData option"
  routesApi :: "RoutesData option"

section \<open>Arrival entries and the two caches\<close>

text \<open>
  The value of the property \<^verbatim>\<open>service_status\<close>: a string, or an inherited value
  that came out of the status object.  \<^verbatim>\<open>JSON.stringify\<close> leaves out a property
  whose value is a function and writes \<^verbatim>\<open>Object.prototype\<close> as \<^verbatim>\<open>{}\<close>.
\<close>

datatype statusValue = StatusText string | StatusInherited inherited

record arrivalEntry =
  route_id :: string
  arrival_time :: int
  current_stop :: string
  last_stop_name :: string
  service_status :: statusValue

record stationArrivals =
  stationName :: string
  arrivals :: "arrivalEntry list"

record 'a cacheEntry =
  data :: 'a
  timestamp :: int

text \<open>
  The mutable module state.  \<open>upstreamCalls\<close> is not in the source: it logs
  the stop id of every \<^verbatim>\<open>fetch(stopUrl)\<close> issued, so that the number of upstream
  calls can be stated.

  The two caches are plain objects too, and here the own properties are all that
  matters.  A cache is read only in the test
  \<^verbatim>\<open>cache[id] && (now - cache[id].timestamp) < TTL\<close>: an inherited value has no
  \<^verbatim>\<open>timestamp\<close>, the difference is \<^verbatim>\<open>NaN\<close>, and the test fails as it does for a
  missing entry.  The assignment \<^verbatim>\<open>cache['__proto__'] = entry\<close> makes the entry the
  prototype of the cache; \<^verbatim>\<open>cache['__proto__']\<close> then reads that entry back, as from
  an own property, and the two properties of the entry that the cache inherits from it
  (\<^verbatim>\<open>data\<close>, \<^verbatim>\<open>timestamp\<close>) have no \<^verbatim>\<open>timestamp\<close> either.
\<close>

record server =
  arrivalsCache :: "string \<rightharpoonup> stationArrivals cacheEntry"
  stationRoutesCache :: "string \<rightharpoonup> string list cacheEntry"
  upstreamCalls :: "string list"

definition CACHE_TTL :: int where
  "CACHE_TTL = 20000"

definition ROUTES_CACHE_TTL :: int where
  "ROUTES_CACHE_TTL = 300000"

definition initialServer :: server where
  "initialServer = \<lparr>arrivalsCache = Map.empty, stationRoutesCache = Map.empty, upstreamCalls = []\<rparr>"

section \<open>Remote arrivals client\<close>

text \<open>
  \<^verbatim>\<open>Math.floor((departureTime - now / 1000) / 60)\<close>, every operation rounded to a
  double: the value that \<^verbatim>\<open>parseInt\<close> returned, the quotient \<^verbatim>\<open>now / 1000\<close>, the
  difference and the quotient by 60.  The clock value is a whole number below
  \<open>2 ^ 53\<close> and needs no rounding; the floor of a double is a double.
\<close>

definition arrivalMinutes :: "int \<Rightarrow> int \<Rightarrow> int" where
  "arrivalMinutes departureTime nowMs =
     (let secondsToLeave =
            toDouble (toDouble (of_int departureTime) - toDouble (of_int nowMs / 1000))
      in \<lfloor>toDouble (secondsToLeave / 60)\<rfloor>)"

text \<open>The body of the loop over \<^verbatim>\<open>stopData.stopTimes\<close>: the entry pushed, if any.\<close>

definition stopTimeEntry :: "int \<Rightarrow> string \<Rightarrow> StopTime \<Rightarrow> arrivalEntry option" where
  "stopTimeEntry nowMs name st =
     (case departure st of
        None \<Rightarrow> None
      | Some dep \<Rightarrow>
          (case dep_time dep of
             None \<Rightarrow> None
           | Some t \<Rightarrow>
               if t = [] then None
               else (case parseInt t of
                       None \<Rightarrow> None
                     | Some departureTime \<Rightarrow>
                         if arrivalMinutes departureTime nowMs \<ge> 0 then
                           Some \<lparr>route_id = js_or (Option.bind (Option.bind (trip st) route) route_ref_id) ''Unknown'',
                                 arrival_time = arrivalMinutes departureTime nowMs,
                                 current_stop = name,
                                 last_stop_name = js_or (Option.bind (Option.bind (trip st) destination) dest_name) ''Unknown'',
                                 service_status = StatusText ''Good Service''\<rparr>
                         else None)))"

fun collectArrivals :: "int \<Rightarrow> string \<Rightarrow> StopTime list \<Rightarrow> arrivalEntry list" where
  "collectArrivals nowMs name [] = []"
| "collectArrivals nowMs name (st # sts) =
     (case stopTimeEntry nowMs name st of
        None \<Rightarrow> collectArrivals nowMs name sts
      | Some entry \<Rightarrow> entry # collectArrivals nowMs name sts)"

text \<open>
  The \<^verbatim>\<open>try\<close> block of \<^verbatim>\<open>fetchSingleStationArrivals\<close>, entered on a cache miss.
  \<^verbatim>\<open>Array.prototype.sort\<close> is stable, and \<^const>\<open>sort_key\<close> is the stable sort.
\<close>

definition fetchArrivalsUpstream :: "env \<Rightarrow> string \<Rightarrow> server \<Rightarrow> stationArrivals \<times> server" where
  "fetchArrivalsUpstream e stationId s =
     (let s1 = s\<lparr>upstreamCalls := upstreamCalls s @ [stationId]\<rparr> in
      case stopsApi e stationId of
        None \<Rightarrow> (\<lparr>stationName = stationId, arrivals = []\<rparr>, s1)
      | Some stopData \<Rightarrow>
          let name = js_or (stop_name stopData) stationId;
              found = collectArrivals (now e) name
                        (case stopTimes stopData of None \<Rightarrow> [] | Some sts \<Rightarrow> sts);
              result = \<lparr>stationName = name, arrivals = sort_key arrival_time found\<rparr>
          in (result,
              s1\<lparr>arrivalsCache := (arrivalsCache s1)(stationId \<mapsto> \<lparr>data = result, timestamp = now e\<rparr>)\<rparr>))"

definition fetchSingleStationArrivals :: "env \<Rightarrow> string \<Rightarrow> server \<Rightarrow> stationArrivals \<times> server" where
  "fetchSingleStationArrivals e stationId s =
     (case arrivalsCache s stationId of
        None \<Rightarrow> fetchArrivalsUpstream e stationId s
      | Some c \<Rightarrow>
          if now e - timestamp c < CACHE_TTL then (data c, s)
          else fetchArrivalsUpstream e stationId s)"

text \<open>
  \<^verbatim>\<open>Promise.all(ids.map(f))\<close>.  Each call runs its cache check when it is
  started, in list order, and writes only the cache slot of its own id, so for
  pairwise different ids the calls are independent and are run here one after the
  other.  The lists of \<^verbatim>\<open>parentMap\<close> hold no id twice.
\<close>

fun promiseAllMap :: "(string \<Rightarrow> 's \<Rightarrow> 'a \<times> 's) \<Rightarrow> string list \<Rightarrow> 's \<Rightarrow> 'a list \<times> 's" where
  "promiseAllMap f [] s = ([], s)"
| "promiseAllMap f (i # ids) s =
     (let (r, s1) = f i s; (rs, s2) = promiseAllMap f ids s1 in (r # rs, s2))"

text \<open>The merge loop of \<^verbatim>\<open>fetchMultiStationArrivals\<close>.\<close>

fun mergeResults :: "stationArrivals list \<Rightarrow> string \<Rightarrow> arrivalEntry list \<Rightarrow> string \<times> arrivalEntry list" where
  "mergeResults [] name allArrivals = (name, allArrivals)"
| "mergeResults (result # results) name allArrivals =
     mergeResults results
       (if name = [] \<and> stationName result \<noteq> [] then stationName result else name)
       (allArrivals @ arrivals result)"

definition fetchMultiStationArrivals :: "env \<Rightarrow> string list \<Rightarrow> server \<Rightarrow> stationArrivals \<times> server" where
  "fetchMultiStationArrivals e stationIds s =
     (let (results, s') = promiseAllMap (fetchSingleStationArrivals e) stationIds s;
          (name, allArrivals) = mergeResults results [] []
      in (\<lparr>stationName = name, arrivals = sort_key arrival_time allArrivals\<rparr>, s'))"

text \<open>
  \<^verbatim>\<open>toUpperCase\<close> and \<^verbatim>\<open>String.prototype.includes\<close>.  The case mapping is that
  of the ASCII letters, which is what \<^verbatim>\<open>toUpperCase\<close> does to a text of ASCII
  characters; the Unicode case mappings of other characters are outside the model.
\<close>

definition toUpperCase :: "string \<Rightarrow> string" where
  "toUpperCase s =
     map (\<lambda>c. if 97 \<le> (of_char c :: nat) \<and> (of_char c :: nat) \<le> 122
               then char_of ((of_char c :: nat) - 32) else c) s"

fun stringIncludes :: "'a list \<Rightarrow> 'a list \<Rightarrow> bool" where
  "stringIncludes [] needle = (needle = [])"
| "stringIncludes (x # xs) needle = (prefix needle (x # xs) \<or> stringIncludes xs needle)"

definition routeStatus :: "Alert list \<Rightarrow> string" where
  "routeStatus als =
     (if length als = 0 then ''Good Service''
      else
        let hasDelay = list_ex (\<lambda>a.
              stringIncludes (toUpperCase (js_or (cause a) [])) ''MAINTENANCE'' \<or>
              stringIncludes (toUpperCase (js_or (effect a) [])) ''MAINTENANCE'') als
        in if hasDelay then ''Service Change'' else ''Delays'')"

text \<open>
  \<^verbatim>\<open>serviceStatus[key] = text\<close>.  Assigning a string to \<^verbatim>\<open>__proto__\<close> changes
  nothing.
\<close>

definition setStatus :: "string \<Rightarrow> string \<Rightarrow> (string \<rightharpoonup> string) \<Rightarrow> (string \<rightharpoonup> string)" where
  "setStatus k v serviceStatus = (if k = ''__proto__'' then serviceStatus else serviceStatus(k \<mapsto> v))"

text \<open>\<^verbatim>\<open>fetchServiceStatus\<close>: the own properties of the object it returns.\<close>

definition fetchServiceStatus :: "env \<Rightarrow> (string \<rightharpoonup> string)" where
  "fetchServiceStatus e =
     (case routesApi e of
        None \<Rightarrow> Map.empty
      | Some routesData \<Rightarrow>
          fold (\<lambda>r serviceStatus.
                  setStatus (propertyKey (route_info_id r))
                    (routeStatus (case alerts r of None \<Rightarrow> [] | Some als \<Rightarrow> als))
                    serviceStatus)
               (case routes routesData of None \<Rightarrow> [] | Some rs \<Rightarrow> rs)
               Map.empty)"

text \<open>\<^verbatim>\<open>Set.prototype.add\<close> on a set kept in insertion order.\<close>

definition setAdd :: "'a \<Rightarrow> 'a list \<Rightarrow> 'a list" where
  "setAdd x xs = (if x \<in> set xs then xs else xs @ [x])"

text \<open>The loop of \<^verbatim>\<open>fetchStationRoutes\<close> that collects the route ids.\<close>

definition stopTimeRoute :: "StopTime \<Rightarrow> string option" where
  "stopTimeRoute st =
     (case Option.bind (Option.bind (trip st) route) route_ref_id of
        None \<Rightarrow> None
      | Some r \<Rightarrow> if r = [] then None else Some r)"

definition collectRoutes :: "StopTime list \<Rightarrow> string list" where
  "collectRoutes sts =
     fold (\<lambda>st rs. case stopTimeRoute st of None \<Rightarrow> rs | Some r \<Rightarrow> setAdd r rs) sts []"

definition fetchRoutesUpstream :: "env \<Rightarrow> string \<Rightarrow> server \<Rightarrow> string list \<times> server" where
  "fetchRoutesUpstream e stationId s =
     (let s1 = s\<lparr>upstreamCalls := upstreamCalls s @ [stationId]\<rparr> in
      case stopsApi e stationId of
        None \<Rightarrow> ([], s1)
      | Some stopData \<Rightarrow>
          let routesList = sort (collectRoutes
                (case stopTimes stopData of None \<Rightarrow> [] | Some sts \<Rightarrow> sts))
          in (routesList,
              s1\<lparr>stationRoutesCache :=
                    (stationRoutesCache s1)(stationId \<mapsto> \<lparr>data = routesList, timestamp = now e\<rparr>)\<rparr>))"

definition fetchStationRoutes :: "env \<Rightarrow> string \<Rightarrow> server \<Rightarrow> string list \<times> server" where
  "fetchStationRoutes e stationId s =
     (case stationRoutesCache s stationId of
        None \<Rightarrow> fetchRoutesUpstream e stationId s
      | Some c \<Rightarrow>
          if now e - timestamp c < ROUTES_CACHE_TTL then (data c, s)
          else fetchRoutesUpstream e stationId s)"

section \<open>Request handlers\<close>

text \<open>
  A handler returns its response body and the module state it leaves, or throws.  Both
  handlers call \<^verbatim>\<open>.map\<close> on \<^verbatim>\<open>platformIds\<close> before anything else happens (the
  arrivals handler in the first line of \<^verbatim>\<open>fetchMultiStationArrivals\<close>); when
  \<^verbatim>\<open>platformIds\<close> is not an array this throws and the state is as it was.  What
  Express and Node do with the rejected promise of the handler is outside the model.

  \<^verbatim>\<open>GET /api/stations/:stationId/routes\<close>:
\<close>

definition getRoutesForStation ::
  "env \<Rightarrow> directory \<Rightarrow> string \<Rightarrow> server \<Rightarrow> (jsError + string list) \<times> server" where
  "getRoutesForStation e d stationId s =
     (case resolveComplex d stationId of
        NotArray v \<Rightarrow> (Inl TypeError, s)
      | IdArray platformIds \<Rightarrow>
          (let (routeResults, s') = promiseAllMap (fetchStationRoutes e) platformIds s;
               allRoutes = fold (\<lambda>rs acc. fold setAdd rs acc) routeResults []
           in (Inr (sort allRoutes), s')))"

text \<open>The public shape of an arrival, and the response of the arrivals endpoint.\<close>

record arrivalView =
  line :: string
  stop :: string
  terminal :: string
  scheduled :: int
  status :: statusValue

record arrivalsResponse =
  r_stationName :: string
  r_platformIds :: "string list"
  r_data :: "arrivalView list"

definition toView :: "arrivalEntry \<Rightarrow> arrivalView" where
  "toView entry = \<lparr>line = route_id entry, stop = current_stop entry,
                    terminal = last_stop_name entry, scheduled = arrival_time entry,
                    status = service_status entry\<rparr>"

text \<open>
  \<^verbatim>\<open>{...entry, service_status: serviceStatus[entry.route_id] || 'Good Service'}\<close>.
\<close>

definition withStatus :: "(string \<rightharpoonup> string) \<Rightarrow> arrivalEntry \<Rightarrow> arrivalEntry" where
  "withStatus serviceStatus entry =
     entry\<lparr>service_status :=
       (case getProperty serviceStatus (route_id entry) of
          Own v \<Rightarrow> StatusText (if v = [] then ''Good Service'' else v)
        | Inherited i \<Rightarrow> StatusInherited i
        | Undefined \<Rightarrow> StatusText ''Good Service'')\<rparr>"

definition applyRouteFilter :: "string list option \<Rightarrow> arrivalEntry list \<Rightarrow> arrivalEntry list" where
  "applyRouteFilter routeFilter arrivalsWithStatus =
     (case routeFilter of
        None \<Rightarrow> arrivalsWithStatus
      | Some rf \<Rightarrow>
          if length rf > 0 then filter (\<lambda>entry. route_id entry \<in> set rf) arrivalsWithStatus
          else arrivalsWithStatus)"

text \<open>
  The body of \<^verbatim>\<open>GET /api/stations/:stationId/arrivals\<close> after its two query
  parameters have been read.
\<close>

definition getArrivals ::
  "env \<Rightarrow> directory \<Rightarrow> string \<Rightarrow> string list option \<Rightarrow> int \<Rightarrow> server \<Rightarrow>
   (jsError + arrivalsResponse) \<times> server" where
  "getArrivals e d stationId routeFilter maxResults s =
     (case resolveComplex d stationId of
        NotArray v \<Rightarrow> (Inl TypeError, s)
      | IdArray platformIds \<Rightarrow>
          (let (dat, s') = fetchMultiStationArrivals e platformIds s;
               serviceStatus = fetchServiceStatus e;
               arrivalsWithStatus = map (withStatus serviceStatus) (arrivals dat);
               arrivalsWithStatus = applyRouteFilter routeFilter arrivalsWithStatus;
               arrivalsWithStatus = sort_key arrival_time arrivalsWithStatus
           in (Inr \<lparr>r_stationName = stationName dat, r_platformIds = platformIds,
                    r_data = map toView (slice0 arrivalsWithStatus maxResults)\<rparr>, s')))"

text \<open>
  \<^verbatim>\<open>req.query.routes ? req.query.routes.split(',') : null\<close> and
  \<^verbatim>\<open>parseInt(req.query.max) || 30\<close>; a query parameter is a string or absent.
\<close>

definition routeFilterOf :: "string option \<Rightarrow> string list option" where
  "routeFilterOf q =
     (case q of None \<Rightarrow> None | Some r \<Rightarrow> if r = [] then None else Some (split CHR '','' r))"

definition maxResultsOf :: "string option \<Rightarrow> int" where
  "maxResultsOf q =
     (case parseInt (case q of None \<Rightarrow> ''undefined'' | Some m \<Rightarrow> m) of
        None \<Rightarrow> 30
      | Some n \<Rightarrow> if n = 0 then 30 else n)"

definition arrivalsHandler ::
  "env \<Rightarrow> directory \<Rightarrow> string \<Rightarrow> string option \<Rightarrow> string option \<Rightarrow> server \<Rightarrow>
   (jsError + arrivalsResponse) \<times> server" where
  "arrivalsHandler e d stationId queryRoutes queryMax s =
     getArrivals e d stationId (routeFilterOf queryRoutes) (maxResultsOf queryMax) s"

section \<open>The arrivals pipeline on shared arrays and objects\<close>

text \<open>
  The functions above pass arrays and entries by value.  In the source they are
  JavaScript arrays and objects, shared by reference between the arrivals cache and the
  requests that read it, and \<^verbatim>\<open>sort\<close> and \<^verbatim>\<open>push\<close> change an array in
  place.  This section repeats the arrivals pipeline with explicit references: an
  address names an array (a list of entry addresses) or an entry object, and addresses
  below \<open>limit\<close> are the allocated ones.  The wrapper objects
  \<^verbatim>\<open>{stationName, arrivals}\<close> and \<^verbatim>\<open>{data, timestamp}\<close> are never assigned to after
  their creation and stay values.
\<close>

record heap =
  arrayCells :: "nat \<Rightarrow> nat list"
  entryCells :: "nat \<Rightarrow> arrivalEntry"
  limit :: nat

record arrivalsRef =
  ref_stationName :: string
  ref_arrivals :: nat

record heapServer =
  refCache :: "string \<rightharpoonup> arrivalsRef cacheEntry"
  cells :: heap

text \<open>An array literal or a fresh result array, and an object literal.\<close>

definition allocArray :: "nat list \<Rightarrow> heap \<Rightarrow> nat \<times> heap" where
  "allocArray xs h =
     (limit h, h\<lparr>arrayCells := (arrayCells h)(limit h := xs), limit := Suc (limit h)\<rparr>)"

definition allocEntry :: "arrivalEntry \<Rightarrow> heap \<Rightarrow> nat \<times> heap" where
  "allocEntry v h =
     (limit h, h\<lparr>entryCells := (entryCells h)(limit h := v), limit := Suc (limit h)\<rparr>)"

text \<open>\<^verbatim>\<open>a.push(r)\<close> and \<^verbatim>\<open>a.sort((x, y) => x.arrival_time - y.arrival_time)\<close>.\<close>

definition push :: "nat \<Rightarrow> nat \<Rightarrow> heap \<Rightarrow> heap" where
  "push a r h = h\<lparr>arrayCells := (arrayCells h)(a := arrayCells h a @ [r])\<rparr>"

definition sortInPlace :: "nat \<Rightarrow> heap \<Rightarrow> heap" where
  "sortInPlace a h =
     h\<lparr>arrayCells := (arrayCells h)(a := sort_key (\<lambda>r. arrival_time (entryCells h r)) (arrayCells h a))\<rparr>"

fun collectArrivalsH :: "int \<Rightarrow> string \<Rightarrow> nat \<Rightarrow> StopTime list \<Rightarrow> heap \<Rightarrow> heap" where
  "collectArrivalsH nowMs name a [] h = h"
| "collectArrivalsH nowMs name a (st # sts) h =
     (case stopTimeEntry nowMs name st of
        None \<Rightarrow> collectArrivalsH nowMs name a sts h
      | Some entry \<Rightarrow>
          (let (r, h1) = allocEntry entry h
           in collectArrivalsH nowMs name a sts (push a r h1)))"

definition fetchArrivalsUpstreamH :: "env \<Rightarrow> string \<Rightarrow> heapServer \<Rightarrow> arrivalsRef \<times> heapServer" where
  "fetchArrivalsUpstreamH e stationId hs =
     (case stopsApi e stationId of
        None \<Rightarrow>
          (let (a, h1) = allocArray [] (cells hs)
           in (\<lparr>ref_stationName = stationId, ref_arrivals = a\<rparr>, hs\<lparr>cells := h1\<rparr>))
      | Some stopData \<Rightarrow>
          (let (a, h1) = allocArray [] (cells hs);
               name = js_or (stop_name stopData) stationId;
               h2 = collectArrivalsH (now e) name a
                      (case stopTimes stopData of None \<Rightarrow> [] | Some sts \<Rightarrow> sts) h1;
               h3 = sortInPlace a h2;
               result = \<lparr>ref_stationName = name, ref_arrivals = a\<rparr>
           in (result,
               \<lparr>refCache = (refCache hs)(stationId \<mapsto> \<lparr>data = result, timestamp = now e\<rparr>),
                cells = h3\<rparr>)))"

definition fetchSingleStationArrivalsH :: "env \<Rightarrow> string \<Rightarrow> heapServer \<Rightarrow> arrivalsRef \<times> heapServer" where
  "fetchSingleStationArrivalsH e stationId hs =
     (case refCache hs stationId of
        None \<Rightarrow> fetchArrivalsUpstreamH e stationId hs
      | Some c \<Rightarrow>
          if now e - timestamp c < CACHE_TTL then (data c, hs)
          else fetchArrivalsUpstreamH e stationId hs)"

text \<open>\<^verbatim>\<open>allArrivals = allArrivals.concat(result.arrivals)\<close> makes a new array each time.\<close>

fun mergeResultsH :: "arrivalsRef list \<Rightarrow> string \<Rightarrow> nat \<Rightarrow> heap \<Rightarrow> string \<times> nat \<times> heap" where
  "mergeResultsH [] name allArrivals h = (name, allArrivals, h)"
| "mergeResultsH (result # results) name allArrivals h =
     (let (a, h1) = allocArray (arrayCells h allArrivals @ arrayCells h (ref_arrivals result)) h
      in mergeResultsH results
           (if name = [] \<and> ref_stationName result \<noteq> [] then ref_stationName result else name)
           a h1)"

definition fetchMultiStationArrivalsH :: "env \<Rightarrow> string list \<Rightarrow> heapServer \<Rightarrow> arrivalsRef \<times> heapServer" where
  "fetchMultiStationArrivalsH e stationIds hs =
     (let (results, hs1) = promiseAllMap (fetchSingleStationArrivalsH e) stationIds hs;
          (a0, h0) = allocArray [] (cells hs1);
          (name, allArrivals, h1) = mergeResultsH results [] a0 h0;
          h2 = sortInPlace allArrivals h1
      in (\<lparr>ref_stationName = name, ref_arrivals = allArrivals\<rparr>, hs1\<lparr>cells := h2\<rparr>))"

text \<open>
  \<^verbatim>\<open>data.arrivals.map(entry => ({...entry, service_status: ...}))\<close>: one new object
  per element, with the fields of the old one copied.
\<close>

fun mapWithStatusH :: "(string \<rightharpoonup> string) \<Rightarrow> nat list \<Rightarrow> heap \<Rightarrow> nat list \<times> heap" where
  "mapWithStatusH serviceStatus [] h = ([], h)"
| "mapWithStatusH serviceStatus (r # rs) h =
     (let (r', h1) = allocEntry (withStatus serviceStatus (entryCells h r)) h;
          (rs', h2) = mapWithStatusH serviceStatus rs h1
      in (r' # rs', h2))"

definition applyRouteFilterH :: "string list option \<Rightarrow> nat \<Rightarrow> heap \<Rightarrow> nat \<times> heap" where
  "applyRouteFilterH routeFilter a h =
     (case routeFilter of
        None \<Rightarrow> (a, h)
      | Some rf \<Rightarrow>
          if length rf > 0
          then allocArray (filter (\<lambda>r. route_id (entryCells h r) \<in> set rf) (arrayCells h a)) h
          else (a, h))"

definition getArrivalsH ::
  "env \<Rightarrow> directory \<Rightarrow> string \<Rightarrow> string list option \<Rightarrow> int \<Rightarrow> heapServer \<Rightarrow>
   (jsError + arrivalsResponse) \<times> heapServer" where
  "getArrivalsH e d stationId routeFilter maxResults hs =
     (case resolveComplex d stationId of
        NotArray v \<Rightarrow> (Inl TypeError, hs)
      | IdArray platformIds \<Rightarrow>
          (let (dat, hs1) = fetchMultiStationArrivalsH e platformIds hs;
               serviceStatus = fetchServiceStatus e;
               (refs, h1) = mapWithStatusH serviceStatus
                              (arrayCells (cells hs1) (ref_arrivals dat)) (cells hs1);
               (a1, h2) = allocArray refs h1;
               (a2, h3) = applyRouteFilterH routeFilter a1 h2;
               h4 = sortInPlace a2 h3;
               (a3, h5) = allocArray (slice0 (arrayCells h4 a2) maxResults) h4
           in (Inr \<lparr>r_stationName = ref_stationName dat, r_platformIds = platformIds,
                    r_data = map (\<lambda>r. toView (entryCells h5 r)) (arrayCells h5 a3)\<rparr>,
               hs1\<lparr>cells := h5\<rparr>)))"

text \<open>The server at start: nothing cached, nothing allocated.\<close>

definition blankEntry :: arrivalEntry where
  "blankEntry = \<lparr>route_id = [], arrival_time = 0, current_stop = [], last_stop_name = [],
                  service_status = StatusText []\<rparr>"

definition emptyHeap :: heap where
  "emptyHeap = \<lparr>arrayCells = (\<lambda>a. []), entryCells = (\<lambda>a. blankEntry), limit = 0\<rparr>"

definition initialHeapServer :: heapServer where
  "initialHeapServer = \<lparr>refCache = Map.empty, cells = emptyHeap\<rparr>"

section \<open>Specification vocabulary\<close>

text \<open>
  The list that the arrivals handler truncates, for the platform ids that the station id
  resolved to: the merged arrivals with the service status attached, filtered by route
  and sorted.
\<close>

definition rankedArrivals ::
  "env \<Rightarrow> string list \<Rightarrow> string list option \<Rightarrow> server \<Rightarrow> arrivalEntry list" where
  "rankedArrivals e platformIds routeFilter s =
     sort_key arrival_time
       (applyRouteFilter routeFilter
          (map (withStatus (fetchServiceStatus e))
             (arrivals (fst (fetchMultiStationArrivals e platformIds s)))))"

text \<open>
  The server states that requests can produce: the process starts with both caches
  empty, and every request to one of the two caching endpoints runs to its end before
  the next one starts.
\<close>

inductive reachable :: "server \<Rightarrow> bool" where
  reachable_init: "reachable initialServer"
| reachable_arrivals: "reachable s \<Longrightarrow> reachable (snd (getArrivals e d stationId routeFilter maxResults s))"
| reachable_routes: "reachable s \<Longrightarrow> reachable (snd (getRoutesForStation e d stationId s))"

text \<open>What every entry of the arrivals cache satisfies in such a state.\<close>

definition cacheSorted :: "server \<Rightarrow> bool" where
  "cacheSorted s =
     (\<forall>k c. arrivalsCache s k = Some c \<longrightarrow> sorted (map arrival_time (arrivals (data c))))"

definition cacheNonNegative :: "server \<Rightarrow> bool" where
  "cacheNonNegative s =
     (\<forall>k c. arrivalsCache s k = Some c \<longrightarrow> (\<forall>x \<in> set (arrivals (data c)). 0 \<le> arrival_time x))"

text \<open>The test that guards each cache: an entry exists and is younger than the TTL.\<close>

definition arrivalsLive :: "env \<Rightarrow> server \<Rightarrow> string \<Rightarrow> bool" where
  "arrivalsLive e s i =
     (case arrivalsCache s i of None \<Rightarrow> False | Some c \<Rightarrow> now e - timestamp c < CACHE_TTL)"

definition routesLive :: "env \<Rightarrow> server \<Rightarrow> string \<Rightarrow> bool" where
  "routesLive e s i =
     (case stationRoutesCache s i of None \<Rightarrow> False | Some c \<Rightarrow> now e - timestamp c < ROUTES_CACHE_TTL)"




text \<open>
  The platform ids of the rows that name the complex \<open>p\<close> as their parent, each id
  once, in file order.
\<close>

definition complexMembers :: "station list \<Rightarrow> string \<Rightarrow> string list" where
  "complexMembers L p = fold setAdd (map st_id (filter (\<lambda>s. parent_id s = p) L)) []"

text \<open>
  The property names that every plain object inherits from \<^verbatim>\<open>Object.prototype\<close>,
  and the names that \<^verbatim>\<open>stationMap\<close> inherits: these, and the five field names of a
  station once a row with the id \<^verbatim>\<open>__proto__\<close> has made a station object its
  prototype.
\<close>

definition objectPrototypeNames :: "string list" where
  "objectPrototypeNames = ''__proto__'' # map fst objectMethods"


text \<open>
  The rows whose loop body ran to its end, which are the rows that reached
  \<^verbatim>\<open>parentMap\<close>: all rows of \<open>stationsList\<close>, but for the last one when an
  exception ended the load.
\<close>

definition linkedRows :: "directory \<Rightarrow> station list" where
  "linkedRows d = (if loadFailed d then butlast (stationsList d) else stationsList d)"

text \<open>How the two lookup objects relate to the rows that were loaded.\<close>

definition directoryConsistent :: "directory \<Rightarrow> bool" where
  "directoryConsistent d =
     ((\<forall>p. parentMap d p =
            (if p \<in> parent_id ` set (linkedRows d)
             then Some (complexMembers (linkedRows d) p) else None)) \<and>
      (\<forall>s \<in> set (linkedRows d). parent_id s \<notin> set objectPrototypeNames) \<and>
      (\<forall>i. stationMap d i =
            (if i = ''__proto__'' then None
             else List.find (\<lambda>s. st_id s = i) (rev (stationsList d)))) \<and>
      stationMapProto d = List.find (\<lambda>s. st_id s = ''__proto__'') (rev (stationsList d)) \<and>
      (loadFailed d \<and> stationsList d \<noteq> [] \<longrightarrow>
         parent_id (last (stationsList d)) \<in> set objectPrototypeNames))"

text \<open>A platform fetch fails when the cache cannot answer and the upstream call throws.\<close>

definition fetchFails :: "env \<Rightarrow> server \<Rightarrow> string \<Rightarrow> bool" where
  "fetchFails e s i = (\<not> arrivalsLive e s i \<and> stopsApi e i = None)"

text \<open>
  Vocabulary for the shared heap: the entries an array holds, in order; a cache whose
  references all point at allocated cells; a cache entry that the arrivals cache would
  use at a given time; and a run of arrivals requests, one after the other.
\<close>

definition readEntries :: "heap \<Rightarrow> nat \<Rightarrow> arrivalEntry list" where
  "readEntries h a = map (entryCells h) (arrayCells h a)"

definition cacheAllocated :: "heapServer \<Rightarrow> bool" where
  "cacheAllocated hs =
     (\<forall>k c. refCache hs k = Some c \<longrightarrow>
        ref_arrivals (data c) < limit (cells hs) \<and>
        (\<forall>r \<in> set (arrayCells (cells hs) (ref_arrivals (data c))). r < limit (cells hs)))"

record request =
  req_env :: env
  req_station :: string
  req_routes :: "string list option"
  req_max :: int

definition serve :: "directory \<Rightarrow> request \<Rightarrow> heapServer \<Rightarrow> heapServer" where
  "serve d q hs = snd (getArrivalsH (req_env q) d (req_station q) (req_routes q) (req_max q) hs)"

definition serveAll :: "directory \<Rightarrow> request list \<Rightarrow> heapServer \<Rightarrow> heapServer" where
  "serveAll d qs hs = fold (serve d) qs hs"

text \<open>
  \<open>keeps n h h'\<close>: going from \<open>h\<close> to \<open>h'\<close>, nothing was freed and no array or
  object at an address below \<open>n\<close> was changed.
\<close>

definition keeps :: "nat \<Rightarrow> heap \<Rightarrow> heap \<Rightarrow> bool" where
  "keeps n h h' =
     (limit h \<le> limit h' \<and>
      (\<forall>a<n. arrayCells h' a = arrayCells h a \<and> entryCells h' a = entryCells h a))"

definition arrivalsLiveH :: "env \<Rightarrow> heapServer \<Rightarrow> string \<Rightarrow> bool" where
  "arrivalsLiveH e hs i =
     (case refCache hs i of None \<Rightarrow> False | Some c \<Rightarrow> now e - timestamp c < CACHE_TTL)"

text \<open>
  The part of \<open>fetchMultiStationArrivalsH\<close> after the platform fetches, and the part
  of \<open>getArrivalsH\<close> after the merge, as functions of the heap they start from.
\<close>

definition mergeTailH :: "arrivalsRef list \<Rightarrow> heap \<Rightarrow> string \<times> nat \<times> heap" where
  "mergeTailH results h =
     (let (a0, h0) = allocArray [] h;
          (name, allArrivals, h1) = mergeResultsH results [] a0 h0
      in (name, allArrivals, sortInPlace allArrivals h1))"

definition respondTailH ::
  "(string \<rightharpoonup> string) \<Rightarrow> string list option \<Rightarrow> int \<Rightarrow> nat \<Rightarrow> heap \<Rightarrow> arrivalView list \<times> heap" where
  "respondTailH serviceStatus routeFilter maxResults a h =
     (let (refs, h1) = mapWithStatusH serviceStatus (arrayCells h a) h;
          (a1, h2) = allocArray refs h1;
          (a2, h3) = applyRouteFilterH routeFilter a1 h2;
          h4 = sortInPlace a2 h3;
          (a3, h5) = allocArray (slice0 (arrayCells h4 a2) maxResults) h4
      in (map (\<lambda>r. toView (entryCells h5 r)) (arrayCells h5 a3), h5))"

text \<open>
  Reading a result and the arrivals cache out of the heap gives the values that the
  functions of the first sections compute with.
\<close>

definition absResult :: "heap \<Rightarrow> arrivalsRef \<Rightarrow> stationArrivals" where
  "absResult h r = \<lparr>stationName = ref_stationName r, arrivals = readEntries h (ref_arrivals r)\<rparr>"

definition absCache :: "heapServer \<Rightarrow> (string \<rightharpoonup> stationArrivals cacheEntry)" where
  "absCache hs k =
     (case refCache hs k of
        None \<Rightarrow> None
      | Some c \<Rightarrow> Some \<lparr>data = absResult (cells hs) (data c), timestamp = timestamp c\<rparr>)"

definition resultAllocated :: "heap \<Rightarrow> arrivalsRef \<Rightarrow> bool" where
  "resultAllocated h r =
     (ref_arrivals r < limit h \<and> (\<forall>x \<in> set (arrayCells h (ref_arrivals r)). x < limit h))"

definition refines :: "heapServer \<Rightarrow> server \<Rightarrow> bool" where
  "refines hs s = (cacheAllocated hs \<and> arrivalsCache s = absCache hs)"



section \<open>A small world for concrete runs\<close>

text \<open>
  Platforms 101 and 102 of the complex R20.  At the clock value 1000000 ms,
  platform 101 has a train of route 1 in three minutes and platform 102 a train of
  route 2 in one minute and one that left 100 seconds ago.
\<close>

definition exampleStopTime :: "string \<Rightarrow> string option \<Rightarrow> string option \<Rightarrow> StopTime" where
  "exampleStopTime t r dn =
     \<lparr>departure = Some \<lparr>dep_time = Some t\<rparr>,
      trip = Some \<lparr>route = Some \<lparr>route_ref_id = r\<rparr>,
                   destination = Some \<lparr>dest_name = dn\<rparr>\<rparr>\<rparr>"

definition exampleStops :: "string \<Rightarrow> StopData option" where
  "exampleStops i =
     (if i = ''101'' then
        Some \<lparr>stop_name = Some ''Union Sq'',
              stopTimes = Some [exampleStopTime ''1200'' (Some ''1'') (Some ''South Ferry'')]\<rparr>
      else if i = ''102'' then
        Some \<lparr>stop_name = Some ''Union Sq'',
              stopTimes = Some [exampleStopTime ''1060'' (Some ''2'') None,
                                exampleStopTime ''900'' (Some ''2'') None]\<rparr>
      else None)"

definition exampleEnv :: env where
  "exampleEnv = \<lparr>now = 1000000, stopsApi = exampleStops, routesApi = None\<rparr>"

definition exampleDirectory :: directory where
  "exampleDirectory =
     \<lparr>stationsList =
        [\<lparr>st_id = ''101'', st_name = ''Union Sq'', lat = ''0'', lon = ''0'', parent_id = ''R20''\<rparr>,
         \<lparr>st_id = ''102'', st_name = ''Union Sq'', lat = ''0'', lon = ''0'', parent_id = ''R20''\<rparr>],
      loadFailed = False,
      stationMap =
        [''101'' \<mapsto> \<lparr>st_id = ''101'', st_name = ''Union Sq'', lat = ''0'', lon = ''0'', parent_id = ''R20''\<rparr>,
         ''102'' \<mapsto> \<lparr>st_id = ''102'', st_name = ''Union Sq'', lat = ''0'', lon = ''0'', parent_id = ''R20''\<rparr>],
      stationMapProto = None,
      parentMap = [''R20'' \<mapsto> [''101'', ''102'']]\<rparr>"

definition exampleEntry1 :: arrivalEntry where
  "exampleEntry1 = \<lparr>route_id = ''1'', arrival_time = 3, current_stop = ''Union Sq'',
                      last_stop_name = ''South Ferry'', service_status = StatusText ''Good Service''\<rparr>"

definition exampleEntry2 :: arrivalEntry where
  "exampleEntry2 = \<lparr>route_id = ''2'', arrival_time = 1, current_stop = ''Union Sq'',
                      last_stop_name = ''Unknown'', service_status = StatusText ''Good Service''\<rparr>"

text \<open>
  The same world with a routes reply: route 1 has an alert whose cause names
  maintenance in lower case, route 2 an alert that does not, route 3 no alert.
\<close>

definition exampleRoutes :: RoutesData where
  "exampleRoutes =
     \<lparr>routes = Some
        [\<lparr>route_info_id = Some ''1'', alerts = Some [\<lparr>cause = Some ''planned maintenance'', effect = None\<rparr>]\<rparr>,
         \<lparr>route_info_id = Some ''2'', alerts = Some [\<lparr>cause = None, effect = Some ''SIGNIFICANT_DELAYS''\<rparr>]\<rparr>,
         \<lparr>route_info_id = Some ''3'', alerts = Some []\<rparr>]\<rparr>"

definition exampleEnvAlerts :: env where
  "exampleEnvAlerts = \<lparr>now = 1000000, stopsApi = exampleStops, routesApi = Some exampleRoutes\<rparr>"


definition exampleCsv :: string where
  "exampleCsv =
     ''id,name,lat,lon,parent_id'' @ [CHR 0x0A] @
     ''101,Union Sq,0,0,R20'' @ [CHR 0x0A] @
     ''short,row'' @ [CHR 0x0A] @
     ''102,Union Sq,0,0,R20'' @ [CHR 0x0A]"

text \<open>The example world a second later, and a world whose upstream is down.\<close>

definition exampleEnvLater :: env where
  "exampleEnvLater = \<lparr>now = 1001000, stopsApi = exampleStops, routesApi = None\<rparr>"

definition upstreamDown :: "string \<Rightarrow> StopData option" where
  "upstreamDown i = None"

definition exampleEnvDown :: env where
  "exampleEnvDown = \<lparr>now = 1000000, stopsApi = upstreamDown, routesApi = None\<rparr>"

definition exampleEnvDownLater :: env where
  "exampleEnvDownLater = \<lparr>now = 1001000, stopsApi = upstreamDown, routesApi = None\<rparr>"

definition exampleEnvExpired :: env where
  "exampleEnvExpired = \<lparr>now = 1300000, stopsApi = exampleStops, routesApi = None\<rparr>"

text \<open>The example world with the upstream failing for platform 102 only.\<close>

definition partialStops :: "string \<Rightarrow> StopData option" where
  "partialStops i = (if i = ''102'' then None else exampleStops i)"

definition exampleEnvPartial :: env where
  "exampleEnvPartial = \<lparr>now = 1000000, stopsApi = partialStops, routesApi = None\<rparr>"

text \<open>
  The server after platform 101 has been fetched in the example world: the cached
  array at address 0 holds the one entry object at address 1.
\<close>

definition exampleHeapServer :: heapServer where
  "exampleHeapServer =
     \<lparr>refCache = [''101'' \<mapsto> \<lparr>data = \<lparr>ref_stationName = ''Union Sq'', ref_arrivals = 0\<rparr>,
                              timestamp = 1000000\<rparr>],
      cells = \<lparr>arrayCells = (\<lambda>a. [])(0 := [1]),
               entryCells = (\<lambda>a. blankEntry)(1 := exampleEntry1),
               limit = 2\<rparr>\<rparr>"

definition exampleRequests :: "request list" where
  "exampleRequests =
     [\<lparr>req_env = exampleEnvLater, req_station = ''R20'', req_routes = None, req_max = 30\<rparr>,
      \<lparr>req_env = exampleEnvAlerts, req_station = ''101'', req_routes = Some [''1''], req_max = 14\<rparr>]"

text \<open>
  A world with ties: at the clock value 1000000 ms every train is three minutes away,
  route 1 on platform 101 and routes 2 and 3, in this order, on platform 102.
\<close>

definition tieStops :: "string \<Rightarrow> StopData option" where
  "tieStops i =
     (if i = ''101'' then
        Some \<lparr>stop_name = Some ''Union Sq'',
              stopTimes = Some [exampleStopTime ''1200'' (Some ''1'') None]\<rparr>
      else if i = ''102'' then
        Some \<lparr>stop_name = Some ''Union Sq'',
              stopTimes = Some [exampleStopTime ''1230'' (Some ''2'') None,
                                exampleStopTime ''1190'' (Some ''3'') None]\<rparr>
      else None)"

definition tieEnv :: env where
  "tieEnv = \<lparr>now = 1000000, stopsApi = tieStops, routesApi = None\<rparr>"




section \<open>Basic facts\<close>

subsection \<open>Rounding to a double\<close>

lemma roundTiesToEven_error: "\<bar>of_int (roundTiesToEven x) - x\<bar> \<le> 1 / 2"
  unfolding roundTiesToEven_def Let_def by (auto simp: abs_if) linarith+

lemma roundTiesToEven_int: "roundTiesToEven (of_int k) = k"
  by (simp add: roundTiesToEven_def)

lemma exponentOf_bounds:
  assumes "0 < x"
  shows "2 powi exponentOf x \<le> x \<and> x < 2 powi (exponentOf x + 1)"
proof (cases "1 \<le> x")
  case True
  define m where "m = \<lfloor>x\<rfloor>"
  from True have m: "0 < m" by (simp add: m_def)
  from bitlen_bounds [OF m] have b: "2 ^ nat (bitlen m - 1) \<le> m" "m < 2 ^ nat (bitlen m)" by simp_all
  from m have bl: "1 \<le> bitlen m" by (auto simp: bitlen_alt_def)
  have e: "exponentOf x = bitlen m - 1" using True by (simp add: exponentOf_def m_def)
  have "(2::real) powi (bitlen m - 1) = 2 ^ nat (bitlen m - 1)"
    using bl by (simp add: power_int_nonneg_exp)
  also have "\<dots> = of_int (2 ^ nat (bitlen m - 1))" by simp
  also have "\<dots> \<le> of_int m" using b(1) by (simp only: of_int_le_iff)
  also have "\<dots> \<le> x" by (simp add: m_def)
  finally have lo: "2 powi exponentOf x \<le> x" by (simp add: e)
  have "x < of_int (m + 1)" by (simp add: m_def)
  also have "\<dots> \<le> of_int (2 ^ nat (bitlen m))"
  proof -
    from b(2) have "m + 1 \<le> 2 ^ nat (bitlen m)" by simp
    then show ?thesis by (simp only: of_int_le_iff)
  qed
  also have "\<dots> = (2::real) powi (bitlen m)"
    using bl by (simp add: power_int_nonneg_exp)
  finally have hi: "x < 2 powi (exponentOf x + 1)" by (simp add: e)
  from lo hi show ?thesis by simp
next
  case False
  define y where "y = 1 / x"
  define m where "m = \<lfloor>y\<rfloor>"
  define j where "j = bitlen m - 1"
  from False assms have y1: "1 < y" by (simp add: y_def)
  then have m: "0 < m" by (simp add: m_def)
  from bitlen_bounds [OF m] have b: "2 ^ nat (bitlen m - 1) \<le> m" "m < 2 ^ nat (bitlen m)" by simp_all
  from m have bl: "1 \<le> bitlen m" by (auto simp: bitlen_alt_def)
  then have j0: "0 \<le> j" by (simp add: j_def)
  have "(2::real) powi j = of_int (2 ^ nat j)"
    using j0 by (simp add: power_int_nonneg_exp)
  also have "\<dots> \<le> of_int m" using b(1) by (simp only: of_int_le_iff j_def)
  also have "\<dots> \<le> y" by (simp add: m_def)
  finally have ylo: "2 powi j \<le> y" .
  have "y < of_int (m + 1)" by (simp add: m_def)
  also have "\<dots> \<le> of_int (2 ^ nat (bitlen m))"
  proof -
    from b(2) have "m + 1 \<le> 2 ^ nat (bitlen m)" by simp
    then show ?thesis by (simp only: of_int_le_iff)
  qed
  also have "\<dots> = (2::real) powi (j + 1)"
    using bl by (simp add: power_int_nonneg_exp j_def)
  finally have yhi: "y < 2 powi (j + 1)" .
  have x: "x = 1 / y" using assms by (simp add: y_def)
  have p: "(0::real) < 2 powi j" "(0::real) < 2 powi (j + 1)" by simp_all
  from ylo p y1 have xhi: "x \<le> 2 powi (- j)"
    unfolding x power_int_minus_divide by (simp add: frac_le)
  from yhi p y1 have xlo: "2 powi (- j - 1) < x"
  proof -
    have "1 / 2 powi (j + 1) < 1 / y" using yhi y1 by (simp add: frac_less2)
    moreover have "(2::real) powi (- j - 1) = 1 / 2 powi (j + 1)"
      using power_int_minus_divide [of "2::real" "j + 1"] by simp
    ultimately show ?thesis by (simp add: x)
  qed
  have ex: "exponentOf x = (if x * 2 powi j = 1 then - j else - j - 1)"
    using False by (simp add: exponentOf_def Let_def j_def m_def y_def)
  show ?thesis
  proof (cases "x * 2 powi j = 1")
    case True
    then have "x = 2 powi (- j)"
      unfolding power_int_minus_divide using p(1) by (simp add: field_simps)
    moreover have "(2::real) powi (- j) < 2 powi (- j + 1)"
      by (rule power_int_strict_increasing) simp_all
    ultimately show ?thesis using True ex by simp
  next
    case False
    then have "x \<noteq> 2 powi (- j)"
      unfolding power_int_minus_divide using p(1) by (simp add: field_simps)
    with xhi have "x < 2 powi (- j)" by simp
    with xlo False ex show ?thesis by simp
  qed
qed

lemma powi_less_exp: "(2::real) powi a < 2 powi b \<Longrightarrow> a < b"
proof (rule ccontr)
  assume l: "(2::real) powi a < 2 powi b" and "\<not> a < b"
  then have "b \<le> a" by simp
  then have "(2::real) powi b \<le> 2 powi a" by (rule power_int_increasing) simp
  with l show False by simp
qed

lemma exponentOf_unique:
  assumes "0 < x" and "2 powi e \<le> x" and "x < 2 powi (e + 1)"
  shows "exponentOf x = e"
proof -
  from exponentOf_bounds [OF assms(1)]
  have b: "2 powi exponentOf x \<le> x" "x < 2 powi (exponentOf x + 1)" by simp_all
  from b(1) assms(3) have "(2::real) powi exponentOf x < 2 powi (e + 1)" by simp
  then have "exponentOf x < e + 1"
    by (rule powi_less_exp)
  moreover from assms(2) b(2) have "(2::real) powi e < 2 powi (exponentOf x + 1)" by simp
  then have "e < exponentOf x + 1"
    by (rule powi_less_exp)
  ultimately show ?thesis by simp
qed

lemma toDouble_exponent:
  assumes "2 powi e \<le> \<bar>x\<bar>" and "\<bar>x\<bar> < 2 powi (e + 1)"
  shows "toDouble x = of_int (roundTiesToEven (x / 2 powi (e - 52))) * 2 powi (e - 52)"
proof -
  have "(0::real) < 2 powi e" by simp
  with assms(1) have pos: "0 < \<bar>x\<bar>" by linarith
  then have "exponentOf \<bar>x\<bar> = e" using assms by (rule exponentOf_unique)
  with pos show ?thesis by (simp add: toDouble_def Let_def)
qed

lemma toDouble_error: "\<bar>toDouble x - x\<bar> \<le> \<bar>x\<bar> / 2 ^ 53"
proof (cases "x = 0")
  case True
  then show ?thesis by (simp add: toDouble_def)
next
  case False
  define e where "e = exponentOf \<bar>x\<bar>"
  define q where "q = e - 52"
  define t where "t = x / 2 powi q"
  from False have pos: "0 < \<bar>x\<bar>" by simp
  from exponentOf_bounds [OF pos] have lo: "2 powi e \<le> \<bar>x\<bar>" by (simp add: e_def)
  have p: "(0::real) < 2 powi q" by simp
  have x: "x = t * 2 powi q" by (simp add: t_def)
  have "toDouble x = of_int (roundTiesToEven t) * 2 powi q"
    using False by (simp add: toDouble_def e_def q_def t_def Let_def)
  then have "toDouble x - x = (of_int (roundTiesToEven t) - t) * 2 powi q"
    using x by (simp add: algebra_simps)
  then have "\<bar>toDouble x - x\<bar> = \<bar>of_int (roundTiesToEven t) - t\<bar> * 2 powi q"
    by (simp add: abs_mult)
  also have "\<dots> \<le> (1 / 2) * 2 powi q"
    by (rule mult_right_mono [OF roundTiesToEven_error]) simp
  also have "(1 / 2) * (2::real) powi q = 2 powi e / 2 ^ 53"
  proof -
    have "(2::real) powi e = 2 powi (q + 52)" by (simp add: q_def)
    also have "\<dots> = 2 powi q * 2 powi 52" by (rule power_int_add) simp
    finally show ?thesis by simp
  qed
  also have "\<dots> \<le> \<bar>x\<bar> / 2 ^ 53" using lo by (simp add: divide_right_mono)
  finally show ?thesis .
qed

lemma toDouble_int:
  assumes "\<bar>k\<bar> \<le> 2 ^ 53"
  shows "toDouble (of_int k) = of_int k"
proof (cases "k = 0")
  case True
  then show ?thesis by (simp add: toDouble_def)
next
  case False
  define e where "e = exponentOf \<bar>of_int k :: real\<bar>"
  define q where "q = e - 52"
  from False have pos: "0 < \<bar>of_int k :: real\<bar>" by simp
  from exponentOf_bounds [OF pos] have lo: "2 powi e \<le> \<bar>of_int k :: real\<bar>" by (simp add: e_def)
  from assms have "\<bar>of_int k :: real\<bar> \<le> 2 ^ 53"
    by (metis of_int_abs of_int_le_iff of_int_numeral of_int_power)
  with lo have "(2::real) powi e \<le> 2 powi 53" by simp
  then have e53: "e \<le> 53"
  proof -
    have "(2::real) powi e < 2 powi 54" using \<open>(2::real) powi e \<le> 2 powi 53\<close> by simp
    then have "e < 54" by (rule powi_less_exp)
    then show ?thesis by simp
  qed
  have "\<exists>j. of_int k / (2::real) powi q = of_int j"
  proof (cases "q \<le> 0")
    case True
    then have "(2::real) powi q = 1 / 2 ^ nat (- q)"
      using power_int_minus_divide [of "2::real" "- q"] by (simp add: power_int_nonneg_exp)
    then have "of_int k / (2::real) powi q = of_int (k * 2 ^ nat (- q))" by simp
    then show ?thesis by blast
  next
    case False
    with e53 have q1: "q = 1" by (simp add: q_def)
    then have "e = 53" by (simp add: q_def)
    with lo have "2 ^ 53 \<le> \<bar>of_int k :: real\<bar>" by simp
    then have "2 ^ 53 \<le> \<bar>k\<bar>"
      by (metis of_int_abs of_int_le_iff of_int_numeral of_int_power)
    with assms have "\<bar>k\<bar> = 2 ^ 53" by simp
    then have "k = 9007199254740992 \<or> k = - 9007199254740992" by (simp add: abs_if split: if_splits)
    then have "k = 2 * (k div 2)" by (elim disjE) simp_all
    then have "of_int k / (2::real) powi q = of_int (k div 2)"
      using q1 by (metis nonzero_mult_div_cancel_left of_int_mult of_int_numeral power_int_1_right zero_neq_numeral)
    then show ?thesis by blast
  qed
  then obtain j where j: "of_int k / (2::real) powi q = of_int j" by blast
  have "toDouble (of_int k) = of_int (roundTiesToEven (of_int k / 2 powi q)) * 2 powi q"
    using False by (simp add: toDouble_def e_def q_def Let_def)
  also have "\<dots> = of_int j * 2 powi q" by (simp only: j roundTiesToEven_int)
  also have "\<dots> = of_int k" using j by (simp add: field_simps)
  finally show ?thesis .
qed

text \<open>
  Up to a million million seconds from the epoch, and for a clock between 0 and
  \<open>10 ^ 15\<close> ms, the rounding errors stay below one part in 60000 of a minute, and the
  floor computed in doubles is the floor of the exact quotient.
\<close>

lemma arrivalMinutes_exact:
  assumes d: "\<bar>d\<bar> \<le> 10 ^ 12" and n0: "0 \<le> n" and n1: "n \<le> 10 ^ 15"
  shows "arrivalMinutes d n = (1000 * d - n) div 60000"
proof -
  define A :: real where "A = of_int n / 1000"
  define q where "q = toDouble A"
  define B where "B = of_int d - q"
  define x where "x = toDouble B"
  define y where "y = toDouble (x / 60)"
  define m where "m = (1000 * d - n) div 60000"
  define r where "r = (1000 * d - n) mod 60000"
  have dd: "toDouble (of_int d) = of_int d"
    using d by (intro toDouble_int) simp
  have am: "arrivalMinutes d n = \<lfloor>y\<rfloor>"
    by (simp add: arrivalMinutes_def dd y_def x_def B_def q_def A_def Let_def)
  have K: "1000 * d - n = 60000 * m + r" by (simp add: m_def r_def)
  have r: "0 \<le> r" "r < 60000" by (simp_all add: r_def)
  have dr: "\<bar>of_int d :: real\<bar> \<le> 10 ^ 12"
    using d by (metis of_int_abs of_int_le_iff of_int_numeral of_int_power)
  have A0: "0 \<le> A" using n0 by (simp add: A_def)
  have "of_int n \<le> (10 ^ 15 :: real)"
    using n1 by (metis of_int_le_iff of_int_numeral of_int_power)
  then have A1: "A \<le> 10 ^ 12" by (simp add: A_def)
  have E: "(of_int d - A) / 60 = of_int m + of_int r / 60000"
  proof -
    have "(of_int d - A) / 60 = of_int (1000 * d - n) / (60000 :: real)"
      by (simp add: A_def)
    also have "\<dots> = of_int (60000 * m + r) / 60000" by (simp only: K)
    also have "\<dots> = of_int m + of_int r / 60000" by simp
    finally show ?thesis .
  qed
  show ?thesis
  proof (cases "r = 0")
    case True
    with K have n: "n = 1000 * (d - 60 * m)" by simp
    then have Ai: "A = of_int (d - 60 * m)" by (simp add: A_def)
    from n n0 n1 have "0 \<le> d - 60 * m" "d - 60 * m \<le> 10 ^ 12" by simp_all
    then have "\<bar>d - 60 * m\<bar> \<le> 2 ^ 53" by simp
    then have qA: "q = A" unfolding q_def Ai by (rule toDouble_int)
    then have Bi: "B = of_int (60 * m)" by (simp add: B_def Ai)
    from \<open>0 \<le> d - 60 * m\<close> \<open>d - 60 * m \<le> 10 ^ 12\<close> d have m60: "\<bar>60 * m\<bar> \<le> 2 * 10 ^ 12"
      by (simp add: abs_le_iff)
    then have "\<bar>60 * m\<bar> \<le> 2 ^ 53" by simp
    then have xB: "x = B" unfolding x_def Bi by (rule toDouble_int)
    then have "x / 60 = of_int m" by (simp add: Bi)
    moreover from m60 have "\<bar>m\<bar> \<le> 2 ^ 53" by simp
    ultimately have "y = of_int m" unfolding y_def by (simp add: toDouble_int)
    then show ?thesis by (simp add: am m_def)
  next
    case False
    with r have r1: "1 \<le> r" "r \<le> 59999" by simp_all
    have e1: "\<bar>q - A\<bar> \<le> \<bar>A\<bar> / 9007199254740992"
      using toDouble_error [of A] by (simp add: q_def)
    have e2: "\<bar>x - B\<bar> \<le> \<bar>B\<bar> / 9007199254740992"
      using toDouble_error [of B] by (simp add: x_def)
    have e3: "\<bar>y - x / 60\<bar> \<le> \<bar>x / 60\<bar> / 9007199254740992"
      using toDouble_error [of "x / 60"] by (simp add: y_def)
    have dr': "\<bar>of_int d :: real\<bar> \<le> 1000000000000" using dr by simp
    have A1': "A \<le> 1000000000000" using A1 by simp
    have Bq: "B = of_int d - q" by (simp add: B_def)
    have qe: "\<bar>q - A\<bar> \<le> 112 / 1000000"
      using e1 A0 A1' by linarith
    have Bb: "\<bar>B\<bar> \<le> 2000000000001"
      using qe dr' A0 A1' Bq by linarith
    have xe: "\<bar>x - B\<bar> \<le> 223 / 1000000"
      using e2 Bb by linarith
    have xb: "\<bar>x\<bar> \<le> 2000000000002"
      using xe Bb by linarith
    have "\<bar>x / 60\<bar> = \<bar>x\<bar> / 60" by simp
    with e3 have "\<bar>y - x / 60\<bar> \<le> \<bar>x\<bar> / 60 / 9007199254740992" by simp
    then have ye: "\<bar>y - x / 60\<bar> \<le> 223 / 60000000"
      using xb by linarith
    have close: "\<bar>y - (of_int d - A) / 60\<bar> < 1 / 60000"
    proof -
      have "y - (of_int d - A) / 60 = (y - x / 60) + (x - B) / 60 + (A - q) / 60"
        by (simp add: Bq field_simps)
      moreover from qe have "- (112 / 1000000) \<le> q - A" "q - A \<le> 112 / 1000000"
        by linarith+
      moreover from xe have "- (223 / 1000000) \<le> x - B" "x - B \<le> 223 / 1000000"
        by linarith+
      moreover from ye have "- (223 / 60000000) \<le> y - x / 60" "y - x / 60 \<le> 223 / 60000000"
        by linarith+
      ultimately have "y - (of_int d - A) / 60 < 1 / 60000" "- (y - (of_int d - A) / 60) < 1 / 60000"
        by argo+
      then show ?thesis by (simp only: abs_less_iff)
    qed
    have "(1 :: real) \<le> of_int r" "of_int r \<le> (59999 :: real)"
      using r1 by simp_all
    then have rr: "1 / 60000 \<le> of_int r / (60000 :: real)" "of_int r / (60000 :: real) \<le> 59999 / 60000"
      by argo+
    from close have "y - (of_int m + of_int r / 60000) < 1 / 60000"
      "- (y - (of_int m + of_int r / 60000)) < 1 / 60000"
      unfolding E abs_less_iff by blast+
    with rr have "of_int m < y" "y < of_int m + 1"
      by argo+
    then have "\<lfloor>y\<rfloor> = m" by (simp add: floor_unique)
    then show ?thesis by (simp add: am m_def)
  qed
qed

lemma arrivalMinutes_div:
  "\<bar>d\<bar> \<le> 10 ^ 12 \<Longrightarrow> 0 \<le> n \<Longrightarrow> n \<le> 10 ^ 15 \<Longrightarrow>
   arrivalMinutes d n = (1000 * d - n) div 60000"
  by (rule arrivalMinutes_exact)

subsection \<open>Reading a plain object\<close>

lemma inheritedProperty_None: "inheritedProperty k = None \<longleftrightarrow> k \<notin> set objectPrototypeNames"
  by (simp add: inheritedProperty_def objectPrototypeNames_def)

lemma getProperty_plain:
  "k \<notin> set objectPrototypeNames \<Longrightarrow>
   getProperty obj k = (case obj k of None \<Rightarrow> Undefined | Some v \<Rightarrow> Own v)"
  by (simp add: getProperty_def inheritedProperty_None [symmetric] split: option.splits)

lemma getProperty_own: "obj k = Some v \<Longrightarrow> getProperty obj k = Own v"
  by (simp add: getProperty_def)

lemma getProperty_inherited:
  "obj k = None \<Longrightarrow> k \<in> set objectPrototypeNames \<Longrightarrow> \<exists>v. getProperty obj k = Inherited v"
  by (cases "inheritedProperty k") (simp_all add: getProperty_def inheritedProperty_None)

subsection \<open>The arrivals handler\<close>

lemma getArrivals_IdArray:
  "resolveComplex d sid = IdArray ids \<Longrightarrow>
   getArrivals e d sid rf mx s =
     (Inr \<lparr>r_stationName = stationName (fst (fetchMultiStationArrivals e ids s)),
           r_platformIds = ids,
           r_data = map toView (slice0 (rankedArrivals e ids rf s) mx)\<rparr>,
      snd (fetchMultiStationArrivals e ids s))"
  by (simp add: getArrivals_def rankedArrivals_def Let_def split: prod.splits)

lemma getArrivals_NotArray:
  "resolveComplex d sid = NotArray v \<Longrightarrow> getArrivals e d sid rf mx s = (Inl TypeError, s)"
  by (simp add: getArrivals_def)

lemma getArrivals_Inr:
  assumes "fst (getArrivals e d sid rf mx s) = Inr resp"
  shows "resolveComplex d sid = IdArray (r_platformIds resp) \<and>
         r_data resp = map toView (slice0 (rankedArrivals e (r_platformIds resp) rf s) mx)"
proof (cases "resolveComplex d sid")
  case (IdArray ids)
  with assms show ?thesis by (auto simp add: getArrivals_IdArray)
next
  case (NotArray v)
  with assms show ?thesis by (simp add: getArrivals_NotArray)
qed

lemma getArrivals_data:
  "resolveComplex d sid = IdArray ids \<Longrightarrow>
   \<exists>resp. fst (getArrivals e d sid rf mx s) = Inr resp \<and> r_platformIds resp = ids \<and>
          r_data resp = map toView (slice0 (rankedArrivals e ids rf s) mx)"
  by (simp add: getArrivals_IdArray)

subsection \<open>The merge loop\<close>

lemma mergeResults_arrivals:
  "snd (mergeResults rs n acc) = acc @ concat (map arrivals rs)"
  by (induction rs arbitrary: n acc) simp_all

lemma fetchMulti_arrivals:
  "arrivals (fst (fetchMultiStationArrivals e ids s)) =
   sort_key arrival_time
     (concat (map arrivals (fst (promiseAllMap (fetchSingleStationArrivals e) ids s))))"
proof -
  obtain rs s' where p: "promiseAllMap (fetchSingleStationArrivals e) ids s = (rs, s')"
    by (cases "promiseAllMap (fetchSingleStationArrivals e) ids s")
  obtain n xs where m: "mergeResults rs [] [] = (n, xs)"
    by (cases "mergeResults rs [] []")
  from m have "xs = concat (map arrivals rs)"
    using mergeResults_arrivals [of rs "[]" "[]"] by simp
  with p m show ?thesis
    by (simp add: fetchMultiStationArrivals_def)
qed

lemma fetchMulti_state:
  "snd (fetchMultiStationArrivals e ids s) = snd (promiseAllMap (fetchSingleStationArrivals e) ids s)"
  by (simp add: fetchMultiStationArrivals_def split: prod.splits)

subsection \<open>A single platform fetch touches one cache slot\<close>

lemma fetchArrivalsUpstream_other:
  "k \<noteq> i \<Longrightarrow> arrivalsCache (snd (fetchArrivalsUpstream e i s)) k = arrivalsCache s k"
  by (simp add: fetchArrivalsUpstream_def Let_def split: option.splits)

lemma fetchSingle_other:
  "k \<noteq> i \<Longrightarrow> arrivalsCache (snd (fetchSingleStationArrivals e i s)) k = arrivalsCache s k"
  by (simp add: fetchSingleStationArrivals_def fetchArrivalsUpstream_other split: option.splits)

lemma fetchArrivalsUpstream_result:
  "fst (fetchArrivalsUpstream e i s1) = fst (fetchArrivalsUpstream e i s)"
  by (simp add: fetchArrivalsUpstream_def Let_def split: option.splits)

lemma fetchSingle_result_slot:
  "arrivalsCache s1 i = arrivalsCache s i \<Longrightarrow>
   fst (fetchSingleStationArrivals e i s1) = fst (fetchSingleStationArrivals e i s)"
  by (simp add: fetchSingleStationArrivals_def fetchArrivalsUpstream_result [of e i s1 s]
      split: option.splits)

lemma promiseAllMap_Cons_fst:
  "fst (promiseAllMap f (i # ids) s) = fst (f i s) # fst (promiseAllMap f ids (snd (f i s)))"
  by (simp split: prod.splits)

lemma promiseAllMap_Cons_snd:
  "snd (promiseAllMap f (i # ids) s) = snd (promiseAllMap f ids (snd (f i s)))"
  by (simp split: prod.splits)

lemma promiseAllMap_length:
  "length (fst (promiseAllMap f ids s)) = length ids"
  by (induction ids arbitrary: s)
     (simp_all add: promiseAllMap_Cons_fst del: promiseAllMap.simps(2))

lemma promiseAllMap_arrivals_distinct:
  "distinct ids \<Longrightarrow>
   fst (promiseAllMap (fetchSingleStationArrivals e) ids s) =
   map (\<lambda>i. fst (fetchSingleStationArrivals e i s)) ids"
proof (induction ids arbitrary: s)
  case Nil
  then show ?case by simp
next
  case (Cons i ids)
  let ?s1 = "snd (fetchSingleStationArrivals e i s)"
  have "map (\<lambda>k. fst (fetchSingleStationArrivals e k ?s1)) ids =
        map (\<lambda>k. fst (fetchSingleStationArrivals e k s)) ids"
  proof (rule map_cong [OF refl])
    fix k assume "k \<in> set ids"
    with Cons.prems have "k \<noteq> i" by auto
    then have "arrivalsCache ?s1 k = arrivalsCache s k"
      by (rule fetchSingle_other)
    then show "fst (fetchSingleStationArrivals e k ?s1) = fst (fetchSingleStationArrivals e k s)"
      by (rule fetchSingle_result_slot)
  qed
  moreover have "fst (promiseAllMap (fetchSingleStationArrivals e) ids ?s1) =
        map (\<lambda>k. fst (fetchSingleStationArrivals e k ?s1)) ids"
    using Cons.IH Cons.prems by simp
  ultimately show ?case
    by (simp only: promiseAllMap_Cons_fst list.map)
qed

section \<open>Invariants of the arrivals cache\<close>

lemma promiseAllMap_invariant:
  assumes step: "\<And>i s. P s \<Longrightarrow> P (snd (f i s))"
  shows "P s \<Longrightarrow> P (snd (promiseAllMap f ids s))"
proof (induction ids arbitrary: s)
  case Nil
  then show ?case by simp
next
  case (Cons i ids)
  from Cons.prems have "P (snd (f i s))" by (rule step)
  then have "P (snd (promiseAllMap f ids (snd (f i s))))" by (rule Cons.IH)
  then show ?case by (simp only: promiseAllMap_Cons_snd)
qed

lemma fetchRoutesUpstream_arrivalsCache:
  "arrivalsCache (snd (fetchRoutesUpstream e i s)) = arrivalsCache s"
  by (simp add: fetchRoutesUpstream_def Let_def split: option.splits)

lemma fetchStationRoutes_arrivalsCache:
  "arrivalsCache (snd (fetchStationRoutes e i s)) = arrivalsCache s"
  by (simp add: fetchStationRoutes_def fetchRoutesUpstream_arrivalsCache split: option.splits)

lemma promiseAllMap_routes_arrivalsCache:
  "arrivalsCache (snd (promiseAllMap (fetchStationRoutes e) ids s)) = arrivalsCache s"
  using promiseAllMap_invariant
    [of "\<lambda>t. arrivalsCache t = arrivalsCache s" "fetchStationRoutes e" s ids]
  by (simp add: fetchStationRoutes_arrivalsCache)

lemma getRoutesForStation_state:
  "snd (getRoutesForStation e d sid s) =
     (case resolveComplex d sid of
        IdArray ids \<Rightarrow> snd (promiseAllMap (fetchStationRoutes e) ids s)
      | NotArray v \<Rightarrow> s)"
  by (simp add: getRoutesForStation_def Let_def split: platformIds.splits prod.splits)

lemma getRoutesForStation_arrivalsCache:
  "arrivalsCache (snd (getRoutesForStation e d sid s)) = arrivalsCache s"
  by (simp add: getRoutesForStation_state promiseAllMap_routes_arrivalsCache
      split: platformIds.splits)

lemma getArrivals_state:
  "snd (getArrivals e d sid rf mx s) =
     (case resolveComplex d sid of
        IdArray ids \<Rightarrow> snd (promiseAllMap (fetchSingleStationArrivals e) ids s)
      | NotArray v \<Rightarrow> s)"
  by (simp add: getArrivals_IdArray getArrivals_NotArray fetchMulti_state
      split: platformIds.splits)

lemma fetchArrivalsUpstream_sorted:
  "sorted (map arrival_time (arrivals (fst (fetchArrivalsUpstream e i s))))"
  by (simp add: fetchArrivalsUpstream_def Let_def split: option.splits)

lemma fetchArrivalsUpstream_cacheSorted:
  "cacheSorted s \<Longrightarrow> cacheSorted (snd (fetchArrivalsUpstream e i s))"
  by (auto simp add: cacheSorted_def fetchArrivalsUpstream_def Let_def split: option.splits)

lemma fetchSingle_cacheSorted:
  "cacheSorted s \<Longrightarrow> cacheSorted (snd (fetchSingleStationArrivals e i s))"
  by (simp add: fetchSingleStationArrivals_def fetchArrivalsUpstream_cacheSorted split: option.splits)

lemma fetchSingle_sorted:
  "cacheSorted s \<Longrightarrow> sorted (map arrival_time (arrivals (fst (fetchSingleStationArrivals e i s))))"
  by (auto simp add: fetchSingleStationArrivals_def fetchArrivalsUpstream_sorted cacheSorted_def
      split: option.splits)

lemma reachable_cacheSorted: "reachable s \<Longrightarrow> cacheSorted s"
proof (induction rule: reachable.induct)
  case reachable_init
  show ?case by (simp add: cacheSorted_def initialServer_def)
next
  case (reachable_arrivals s e d stationId routeFilter maxResults)
  then show ?case
    using promiseAllMap_invariant [of cacheSorted "fetchSingleStationArrivals e" s]
    by (simp add: getArrivals_state fetchSingle_cacheSorted split: platformIds.splits)
next
  case (reachable_routes s e d stationId)
  then show ?case
    by (simp add: cacheSorted_def getRoutesForStation_arrivalsCache)
qed

lemma collectArrivals_map_filter:
  "collectArrivals n nm sts = List.map_filter (stopTimeEntry n nm) sts"
  by (induction sts) (simp_all add: List.map_filter_simps split: option.splits)

lemma stopTimeEntry_nonneg: "stopTimeEntry n nm st = Some x \<Longrightarrow> 0 \<le> arrival_time x"
  by (auto simp add: stopTimeEntry_def split: option.splits if_splits)

lemma collectArrivals_nonneg: "x \<in> set (collectArrivals n nm sts) \<Longrightarrow> 0 \<le> arrival_time x"
  by (induction sts) (auto split: option.splits dest: stopTimeEntry_nonneg)

lemma fetchArrivalsUpstream_nonneg:
  "x \<in> set (arrivals (fst (fetchArrivalsUpstream e i s))) \<Longrightarrow> 0 \<le> arrival_time x"
  by (auto simp add: fetchArrivalsUpstream_def Let_def split: option.splits
      dest: collectArrivals_nonneg)

lemma fetchArrivalsUpstream_cacheNonNegative:
  "cacheNonNegative s \<Longrightarrow> cacheNonNegative (snd (fetchArrivalsUpstream e i s))"
  by (auto simp add: cacheNonNegative_def fetchArrivalsUpstream_def Let_def split: option.splits
      dest: collectArrivals_nonneg)

lemma fetchSingle_cacheNonNegative:
  "cacheNonNegative s \<Longrightarrow> cacheNonNegative (snd (fetchSingleStationArrivals e i s))"
  by (simp add: fetchSingleStationArrivals_def fetchArrivalsUpstream_cacheNonNegative
      split: option.splits)

lemma fetchSingle_nonneg:
  "cacheNonNegative s \<Longrightarrow> x \<in> set (arrivals (fst (fetchSingleStationArrivals e i s))) \<Longrightarrow>
   0 \<le> arrival_time x"
  by (auto simp add: fetchSingleStationArrivals_def cacheNonNegative_def
      split: option.splits if_splits dest: fetchArrivalsUpstream_nonneg)

lemma reachable_cacheNonNegative: "reachable s \<Longrightarrow> cacheNonNegative s"
proof (induction rule: reachable.induct)
  case reachable_init
  show ?case by (simp add: cacheNonNegative_def initialServer_def)
next
  case (reachable_arrivals s e d stationId routeFilter maxResults)
  then show ?case
    using promiseAllMap_invariant [of cacheNonNegative "fetchSingleStationArrivals e" s]
    by (simp add: getArrivals_state fetchSingle_cacheNonNegative split: platformIds.splits)
next
  case (reachable_routes s e d stationId)
  then show ?case
    by (simp add: cacheNonNegative_def getRoutesForStation_arrivalsCache)
qed

lemma fetchSingle_miss:
  "\<not> arrivalsLive e s i \<Longrightarrow> fetchSingleStationArrivals e i s = fetchArrivalsUpstream e i s"
  by (simp add: fetchSingleStationArrivals_def arrivalsLive_def split: option.splits)

lemma fetchSingle_hit:
  "arrivalsLive e s i \<Longrightarrow>
   fetchSingleStationArrivals e i s = (data (the (arrivalsCache s i)), s)"
  by (simp add: fetchSingleStationArrivals_def arrivalsLive_def split: option.splits)

section \<open>The example world, evaluated\<close>

lemmas parseInt_defs = parseInt_def isWhiteSpace_def isDigit_def digitValue_def digitsValue_def

lemmas inherited_defs = getProperty_def inheritedProperty_def objectMethods_def

lemma example_resolve: "resolveComplex exampleDirectory ''R20'' = IdArray [''101'', ''102'']"
  by (simp add: resolveComplex_def exampleDirectory_def inherited_defs lengthIsZero_def)

lemma example_upstream_101:
  assumes "now e = 1000000" and "stopsApi e ''101'' = exampleStops ''101''"
  shows "fetchArrivalsUpstream e ''101'' s =
     (\<lparr>stationName = ''Union Sq'', arrivals = [exampleEntry1]\<rparr>,
      s\<lparr>upstreamCalls := upstreamCalls s @ [''101''],
        arrivalsCache := (arrivalsCache s)(''101'' \<mapsto>
           \<lparr>data = \<lparr>stationName = ''Union Sq'', arrivals = [exampleEntry1]\<rparr>,
            timestamp = 1000000\<rparr>)\<rparr>)"
  using assms
  by (simp add: fetchArrivalsUpstream_def exampleStops_def exampleStopTime_def
      stopTimeEntry_def parseInt_defs js_or_def arrivalMinutes_div exampleEntry1_def Let_def)

lemma example_upstream_102:
  assumes "now e = 1000000" and "stopsApi e ''102'' = exampleStops ''102''"
  shows "fetchArrivalsUpstream e ''102'' s =
     (\<lparr>stationName = ''Union Sq'', arrivals = [exampleEntry2]\<rparr>,
      s\<lparr>upstreamCalls := upstreamCalls s @ [''102''],
        arrivalsCache := (arrivalsCache s)(''102'' \<mapsto>
           \<lparr>data = \<lparr>stationName = ''Union Sq'', arrivals = [exampleEntry2]\<rparr>,
            timestamp = 1000000\<rparr>)\<rparr>)"
  using assms
  by (simp add: fetchArrivalsUpstream_def exampleStops_def exampleStopTime_def
      stopTimeEntry_def parseInt_defs js_or_def arrivalMinutes_div exampleEntry2_def Let_def)

lemma example_single_101:
  assumes "now e = 1000000" and "stopsApi e ''101'' = exampleStops ''101''"
  shows "fst (fetchSingleStationArrivals e ''101'' initialServer) =
   \<lparr>stationName = ''Union Sq'', arrivals = [exampleEntry1]\<rparr>"
  by (simp add: fetchSingleStationArrivals_def initialServer_def example_upstream_101 [OF assms])

lemma example_single_102:
  assumes "now e = 1000000" and "stopsApi e ''102'' = exampleStops ''102''"
  shows "fst (fetchSingleStationArrivals e ''102'' initialServer) =
   \<lparr>stationName = ''Union Sq'', arrivals = [exampleEntry2]\<rparr>"
  by (simp add: fetchSingleStationArrivals_def initialServer_def example_upstream_102 [OF assms])

lemma example_merged_any:
  assumes "now e = 1000000" and "stopsApi e = exampleStops"
  shows "arrivals (fst (fetchMultiStationArrivals e [''101'', ''102''] initialServer)) =
   [exampleEntry2, exampleEntry1]"
  by (simp add: fetchMulti_arrivals promiseAllMap_arrivals_distinct example_single_101
      example_single_102 assms exampleEntry1_def exampleEntry2_def
      del: promiseAllMap.simps)

lemma exampleEnv_sel:
  "now exampleEnv = 1000000" "stopsApi exampleEnv = exampleStops" "routesApi exampleEnv = None"
  by (simp_all add: exampleEnv_def)

lemma exampleEnvAlerts_sel:
  "now exampleEnvAlerts = 1000000" "stopsApi exampleEnvAlerts = exampleStops"
  by (simp_all add: exampleEnvAlerts_def)

lemma example_merged:
  "arrivals (fst (fetchMultiStationArrivals exampleEnv [''101'', ''102''] initialServer)) =
   [exampleEntry2, exampleEntry1]"
  by (rule example_merged_any) (simp_all add: exampleEnv_def)

lemma example_status:
  "inheritedProperty (route_id x) = None \<Longrightarrow>
   withStatus (fetchServiceStatus exampleEnv) x = x\<lparr>service_status := StatusText ''Good Service''\<rparr>"
  by (simp add: withStatus_def fetchServiceStatus_def exampleEnv_def getProperty_def)

lemma example_plain_routes:
  "inheritedProperty ''1'' = None" "inheritedProperty ''2'' = None" "inheritedProperty ''3'' = None"
  by (simp_all add: inheritedProperty_def objectMethods_def)

lemma example_ranked:
  "rankedArrivals exampleEnv [''101'', ''102''] None initialServer =
   [exampleEntry2, exampleEntry1]"
  by (simp add: rankedArrivals_def example_merged example_status example_plain_routes
      applyRouteFilter_def exampleEntry1_def exampleEntry2_def)

lemma example_response:
  "fst (getArrivals exampleEnv exampleDirectory ''R20'' None mx initialServer) =
     Inr \<lparr>r_stationName = ''Union Sq'', r_platformIds = [''101'', ''102''],
          r_data = map toView (slice0 [exampleEntry2, exampleEntry1] mx)\<rparr>"
proof -
  have "stationName (fst (fetchMultiStationArrivals exampleEnv [''101'', ''102''] initialServer)) =
        ''Union Sq''"
    by (simp add: fetchMultiStationArrivals_def split_beta promiseAllMap_Cons_fst
        example_single_101 exampleEnv_sel del: promiseAllMap.simps(2))
  then show ?thesis
    by (simp add: getArrivals_IdArray [OF example_resolve] example_ranked)
qed






section \<open>Route filter and row limit of the arrivals endpoint\<close>

lemma maxResultsOf_absent: "maxResultsOf None = 30"
  by (simp add: maxResultsOf_def parseInt_defs)

lemma rankedArrivals_filter:
  "rf \<noteq> [] \<Longrightarrow>
   rankedArrivals e ids (Some rf) s =
   filter (\<lambda>entry. route_id entry \<in> set rf) (rankedArrivals e ids None s)"
  by (simp add: rankedArrivals_def applyRouteFilter_def filter_sort)

text \<open>
  Claim C1, as amended.  A route filter that is absent and one that is present but
  empty give the same outcome: the handler reads an empty \<^verbatim>\<open>routes\<close> parameter as
  no filter, and an empty filter list is skipped by the guard
  \<^verbatim>\<open>routeFilter.length > 0\<close>.  When the station id resolves to the platform ids
  \<open>ids\<close>, the request is answered; the response without a filter is the sorted,
  truncated list of all merged entries, and a filter that is not empty keeps exactly the
  entries whose route id it holds.
\<close>

theorem empty_filter_is_no_filter:
  "getArrivals e d sid (Some []) mx s = getArrivals e d sid None mx s \<and>
   arrivalsHandler e d sid (Some []) qm s = arrivalsHandler e d sid None qm s \<and>
   (resolveComplex d sid = IdArray ids \<longrightarrow>
      (\<exists>resp. fst (getArrivals e d sid None mx s) = Inr resp \<and>
         r_data resp =
           map toView (slice0 (sort_key arrival_time
              (map (withStatus (fetchServiceStatus e))
                 (arrivals (fst (fetchMultiStationArrivals e ids s))))) mx))) \<and>
   (resolveComplex d sid = IdArray ids \<and> rf \<noteq> [] \<longrightarrow>
      (\<exists>resp. fst (getArrivals e d sid (Some rf) mx s) = Inr resp \<and>
         r_data resp =
           map toView (slice0 (filter (\<lambda>entry. route_id entry \<in> set rf)
                                 (rankedArrivals e ids None s)) mx)))"
proof -
  have a: "getArrivals e d sid (Some []) mx s = getArrivals e d sid None mx s"
    by (simp add: getArrivals_def applyRouteFilter_def split: platformIds.splits)
  have b: "arrivalsHandler e d sid (Some []) qm s = arrivalsHandler e d sid None qm s"
    by (simp add: arrivalsHandler_def routeFilterOf_def)
  have c: "resolveComplex d sid = IdArray ids \<longrightarrow>
      (\<exists>resp. fst (getArrivals e d sid None mx s) = Inr resp \<and>
         r_data resp =
           map toView (slice0 (sort_key arrival_time
              (map (withStatus (fetchServiceStatus e))
                 (arrivals (fst (fetchMultiStationArrivals e ids s))))) mx))"
    by (simp add: getArrivals_IdArray rankedArrivals_def applyRouteFilter_def)
  have d: "resolveComplex d sid = IdArray ids \<and> rf \<noteq> [] \<longrightarrow>
      (\<exists>resp. fst (getArrivals e d sid (Some rf) mx s) = Inr resp \<and>
         r_data resp =
           map toView (slice0 (filter (\<lambda>entry. route_id entry \<in> set rf)
                                 (rankedArrivals e ids None s)) mx))"
    by (simp add: getArrivals_IdArray rankedArrivals_filter)
  from a b c d show ?thesis by blast
qed

theorem empty_filter_is_no_filter_witness:
  "resolveComplex exampleDirectory ''R20'' = IdArray [''101'', ''102''] \<and>
   [''2''] \<noteq> ([] :: string list) \<and>
   map_sum id r_data (fst (getArrivals exampleEnv exampleDirectory ''R20'' (Some [''2'']) 30 initialServer)) =
     Inr [toView exampleEntry2] \<and>
   map_sum id r_data (fst (getArrivals exampleEnv exampleDirectory ''R20'' (Some []) 30 initialServer)) =
     Inr [toView exampleEntry2, toView exampleEntry1]"
proof -
  note t = empty_filter_is_no_filter
    [where e = exampleEnv and d = exampleDirectory and sid = "''R20''" and mx = 30 and
       s = initialServer and ids = "[''101'', ''102'']" and rf = "[''2'']" and qm = None]
  from t example_resolve
  have "\<exists>resp. fst (getArrivals exampleEnv exampleDirectory ''R20'' (Some [''2'']) 30 initialServer) = Inr resp \<and>
         r_data resp =
           map toView (slice0 (filter (\<lambda>entry. route_id entry \<in> set [''2''])
                                 (rankedArrivals exampleEnv [''101'', ''102''] None initialServer)) 30)"
    by blast
  then have f: "map_sum id r_data (fst (getArrivals exampleEnv exampleDirectory ''R20'' (Some [''2'']) 30 initialServer)) =
     Inr [toView exampleEntry2]"
    by (auto simp add: example_ranked slice0_def exampleEntry1_def exampleEntry2_def)
  from t example_resolve
  have "getArrivals exampleEnv exampleDirectory ''R20'' (Some []) 30 initialServer =
        getArrivals exampleEnv exampleDirectory ''R20'' None 30 initialServer"
    by blast
  then have n: "map_sum id r_data (fst (getArrivals exampleEnv exampleDirectory ''R20'' (Some []) 30 initialServer)) =
     Inr [toView exampleEntry2, toView exampleEntry1]"
    by (simp add: example_response slice0_def)
  from example_resolve f n show ?thesis by simp
qed

theorem empty_filter_counterexample:
  "map_sum id r_data (fst (arrivalsHandler exampleEnv exampleDirectory ''R20'' (Some []) None initialServer)) =
     Inr [toView exampleEntry2, toView exampleEntry1] \<and>
   map_sum id r_data (fst (getArrivals exampleEnv exampleDirectory ''R20'' (Some []) 30 initialServer)) =
     Inr [toView exampleEntry2, toView exampleEntry1]"
  by (simp add: arrivalsHandler_def routeFilterOf_def getArrivals_IdArray [OF example_resolve]
      rankedArrivals_def applyRouteFilter_def example_merged example_status
      example_plain_routes slice0_def maxResultsOf_absent exampleEntry1_def exampleEntry2_def)

text \<open>
  Claim C7, as amended.  When the row limit is not negative and the station id resolves
  to the platform ids \<open>ids\<close>, the data list of the response is the first
  \<open>maxResults\<close> entries of the sorted, filtered list, so it has at most
  \<open>maxResults\<close> entries.  The limit is 30 when the \<^verbatim>\<open>max\<close> parameter is not
  supplied, and 14 for the split-flap frontend, which sends \<^verbatim>\<open>max=14\<close>.
\<close>

theorem truncation_to_maxResults:
  "0 \<le> maxResults \<Longrightarrow> resolveComplex d sid = IdArray ids \<Longrightarrow>
   (\<exists>resp. fst (getArrivals e d sid rf maxResults s) = Inr resp \<and>
      r_data resp = map toView (take (nat maxResults) (rankedArrivals e ids rf s)) \<and>
      int (length (r_data resp)) \<le> maxResults) \<and>
   maxResultsOf None = 30 \<and> maxResultsOf (Some ''14'') = 14"
  by (simp add: getArrivals_IdArray slice0_def maxResultsOf_def parseInt_defs)

theorem truncation_to_maxResults_witness:
  "(0 :: int) \<le> 1 \<and>
   resolveComplex exampleDirectory ''R20'' = IdArray [''101'', ''102''] \<and>
   map_sum id r_data (fst (getArrivals exampleEnv exampleDirectory ''R20'' None 1 initialServer)) =
     Inr [toView exampleEntry2]"
proof -
  have "\<exists>resp. fst (getArrivals exampleEnv exampleDirectory ''R20'' None 1 initialServer) = Inr resp \<and>
      r_data resp = map toView (take (nat 1) (rankedArrivals exampleEnv [''101'', ''102''] None initialServer)) \<and>
      int (length (r_data resp)) \<le> 1"
    using truncation_to_maxResults
      [where maxResults = 1 and e = exampleEnv and d = exampleDirectory and sid = "''R20''" and
         rf = None and s = initialServer and ids = "[''101'', ''102'']"]
      example_resolve
    by simp
  then have "map_sum id r_data (fst (getArrivals exampleEnv exampleDirectory ''R20'' None 1 initialServer)) =
     Inr [toView exampleEntry2]"
    by (auto simp add: example_ranked)
  with example_resolve show ?thesis by simp
qed

theorem truncation_negative_max_counterexample:
  "map_sum id (\<lambda>resp. int (length (r_data resp)))
     (fst (arrivalsHandler exampleEnv exampleDirectory ''R20'' None (Some ''-1'') initialServer)) = Inr 1 \<and>
   maxResultsOf (Some ''-1'') = - 1"
  by (simp add: arrivalsHandler_def routeFilterOf_def getArrivals_IdArray [OF example_resolve]
      example_ranked maxResultsOf_def parseInt_defs slice0_def)

text \<open>
  Claim C10.  The effective row limit is 30 when the \<^verbatim>\<open>max\<close> parameter is absent,
  when \<^verbatim>\<open>parseInt\<close> finds no number in it, and when it parses to 0; a request with
  such a parameter gets the first 30 entries.  A parameter that parses to a negative
  number \<open>n\<close> is passed to \<^verbatim>\<open>slice\<close> as it is, and the response holds all but the
  last \<open>- n\<close> entries.  The responses are those of a station id that resolves to the
  platform ids \<open>ids\<close>.
\<close>

theorem max_parameter_effect:
  "maxResultsOf None = 30 \<and>
   (parseInt m = None \<longrightarrow> maxResultsOf (Some m) = 30) \<and>
   (parseInt m = Some 0 \<longrightarrow> maxResultsOf (Some m) = 30) \<and>
   (\<forall>n. parseInt m = Some n \<and> n \<noteq> 0 \<longrightarrow> maxResultsOf (Some m) = n) \<and>
   (maxResultsOf q = 30 \<and> resolveComplex d sid = IdArray ids \<longrightarrow>
      (\<exists>resp. fst (arrivalsHandler e d sid qr q s) = Inr resp \<and>
         r_data resp = map toView (take 30 (rankedArrivals e ids (routeFilterOf qr) s)))) \<and>
   (maxResultsOf q < 0 \<and> resolveComplex d sid = IdArray ids \<longrightarrow>
      (\<exists>resp. fst (arrivalsHandler e d sid qr q s) = Inr resp \<and>
         r_data resp =
           map toView (take (length (rankedArrivals e ids (routeFilterOf qr) s) - nat (- maxResultsOf q))
                         (rankedArrivals e ids (routeFilterOf qr) s))))"
proof -
  have a: "maxResultsOf None = 30"
    by (rule maxResultsOf_absent)
  have b: "parseInt m = None \<longrightarrow> maxResultsOf (Some m) = 30"
    by (simp add: maxResultsOf_def)
  have c: "parseInt m = Some 0 \<longrightarrow> maxResultsOf (Some m) = 30"
    by (simp add: maxResultsOf_def)
  have c': "\<forall>n. parseInt m = Some n \<and> n \<noteq> 0 \<longrightarrow> maxResultsOf (Some m) = n"
    by (simp add: maxResultsOf_def)
  have d: "maxResultsOf q = 30 \<and> resolveComplex d sid = IdArray ids \<longrightarrow>
      (\<exists>resp. fst (arrivalsHandler e d sid qr q s) = Inr resp \<and>
         r_data resp = map toView (take 30 (rankedArrivals e ids (routeFilterOf qr) s)))"
    by (simp add: arrivalsHandler_def getArrivals_IdArray slice0_def)
  have "nat (int (length xs) + k) = length xs - nat (- k)" if "k < 0" for k and xs :: "arrivalEntry list"
    using that by linarith
  then have f: "maxResultsOf q < 0 \<and> resolveComplex d sid = IdArray ids \<longrightarrow>
      (\<exists>resp. fst (arrivalsHandler e d sid qr q s) = Inr resp \<and>
         r_data resp =
           map toView (take (length (rankedArrivals e ids (routeFilterOf qr) s) - nat (- maxResultsOf q))
                         (rankedArrivals e ids (routeFilterOf qr) s)))"
    by (simp add: arrivalsHandler_def getArrivals_IdArray slice0_def)
  from a b c c' d f show ?thesis by blast
qed

theorem max_parameter_effect_witness:
  "parseInt ''abc'' = None \<and> maxResultsOf (Some ''abc'') = 30 \<and>
   parseInt ''0'' = Some 0 \<and> maxResultsOf (Some ''0'') = 30 \<and>
   parseInt ''-1'' = Some (- 1) \<and> maxResultsOf (Some ''-1'') = - 1 \<and>
   resolveComplex exampleDirectory ''R20'' = IdArray [''101'', ''102''] \<and>
   map_sum id r_data (fst (arrivalsHandler exampleEnv exampleDirectory ''R20'' None (Some ''0'') initialServer)) =
     Inr [toView exampleEntry2, toView exampleEntry1] \<and>
   map_sum id r_data (fst (arrivalsHandler exampleEnv exampleDirectory ''R20'' None (Some ''-1'') initialServer)) =
     Inr [toView exampleEntry2]"
proof -
  have p: "parseInt ''abc'' = None" "parseInt ''0'' = Some 0" "parseInt ''-1'' = Some (- 1)"
    by (simp_all add: parseInt_defs)
  have r: "routeFilterOf None = None"
    by (simp add: routeFilterOf_def)
  note t1 = max_parameter_effect
      [where m = "''abc''" and q = "Some ''0''" and e = exampleEnv and d = exampleDirectory and
         sid = "''R20''" and qr = None and s = initialServer and ids = "[''101'', ''102'']"]
  note t2 = max_parameter_effect
      [where m = "''0''" and q = "Some ''-1''" and e = exampleEnv and d = exampleDirectory and
         sid = "''R20''" and qr = None and s = initialServer and ids = "[''101'', ''102'']"]
  note t3 = max_parameter_effect
      [where m = "''-1''" and q = "Some ''-1''" and e = exampleEnv and d = exampleDirectory and
         sid = "''R20''" and qr = None and s = initialServer and ids = "[''101'', ''102'']"]
  have m0: "maxResultsOf (Some ''0'') = 30" using t2 p by blast
  have m1: "maxResultsOf (Some ''-1'') = - 1" using t3 p by auto
  have mabc: "maxResultsOf (Some ''abc'') = 30" using t1 p by blast
  from t1 m0 example_resolve
  have "\<exists>resp. fst (arrivalsHandler exampleEnv exampleDirectory ''R20'' None (Some ''0'') initialServer) = Inr resp \<and>
         r_data resp = map toView (take 30 (rankedArrivals exampleEnv [''101'', ''102''] (routeFilterOf None) initialServer))"
    by blast
  then have d0: "map_sum id r_data (fst (arrivalsHandler exampleEnv exampleDirectory ''R20'' None (Some ''0'') initialServer)) =
     Inr [toView exampleEntry2, toView exampleEntry1]"
    by (auto simp add: r example_ranked)
  from m1 have neg: "maxResultsOf (Some ''-1'') < 0" by simp
  from t2 neg example_resolve
  have "\<exists>resp. fst (arrivalsHandler exampleEnv exampleDirectory ''R20'' None (Some ''-1'') initialServer) = Inr resp \<and>
         r_data resp =
           map toView (take (length (rankedArrivals exampleEnv [''101'', ''102''] (routeFilterOf None) initialServer) -
                             nat (- maxResultsOf (Some ''-1'')))
                         (rankedArrivals exampleEnv [''101'', ''102''] (routeFilterOf None) initialServer))"
    by blast
  then have d1: "map_sum id r_data (fst (arrivalsHandler exampleEnv exampleDirectory ''R20'' None (Some ''-1'') initialServer)) =
     Inr [toView exampleEntry2]"
    by (auto simp add: r m1 example_ranked)
  from p m0 m1 mabc d0 d1 example_resolve show ?thesis by simp
qed

section \<open>Order of the arrivals\<close>

lemma arrival_time_withStatus: "arrival_time (withStatus st x) = arrival_time x"
  by (simp add: withStatus_def)

lemma filter_applyRouteFilter:
  "filter P (applyRouteFilter rf xs) = applyRouteFilter rf (filter P xs)"
  by (auto simp add: applyRouteFilter_def split: option.splits intro: filter_cong)

lemma slice0_prefix: "prefix (slice0 xs n) xs"
  by (simp add: slice0_def take_is_prefix)

lemma rankedArrivals_sorted: "sorted (map arrival_time (rankedArrivals e ids rf s))"
  by (simp add: rankedArrivals_def)

lemma rankedArrivals_ties:
  "filter (\<lambda>x. arrival_time x = k) (rankedArrivals e ids rf s) =
   applyRouteFilter rf (map (withStatus (fetchServiceStatus e))
     (filter (\<lambda>x. arrival_time x = k)
        (concat (map arrivals
           (fst (promiseAllMap (fetchSingleStationArrivals e) ids s))))))"
proof -
  let ?C = "concat (map arrivals
           (fst (promiseAllMap (fetchSingleStationArrivals e) ids s)))"
  let ?st = "withStatus (fetchServiceStatus e)"
  have "filter (\<lambda>x. arrival_time x = k) (rankedArrivals e ids rf s) =
        filter (\<lambda>x. arrival_time x = k) (applyRouteFilter rf (map ?st (sort_key arrival_time ?C)))"
    by (simp only: rankedArrivals_def fetchMulti_arrivals sort_key_stable)
  also have "\<dots> = applyRouteFilter rf (filter (\<lambda>x. arrival_time x = k) (map ?st (sort_key arrival_time ?C)))"
    by (rule filter_applyRouteFilter)
  also have "filter (\<lambda>x. arrival_time x = k) (map ?st (sort_key arrival_time ?C)) =
        map ?st (filter (\<lambda>x. arrival_time x = k) (sort_key arrival_time ?C))"
    by (simp add: filter_map o_def arrival_time_withStatus)
  also have "filter (\<lambda>x. arrival_time x = k) (sort_key arrival_time ?C) =
        filter (\<lambda>x. arrival_time x = k) ?C"
    by (rule sort_key_stable)
  finally show ?thesis .
qed

text \<open>
  Claim C2.  In every state that requests can produce, the arrivals of a
  single-platform fetch, of the multi-platform merge and of the response to a station id
  that resolves to the platform ids \<open>ids\<close> are sorted non-decreasing by arrival time
  (the \<open>scheduled\<close> field of the response).  The merge keeps, among entries of equal
  arrival time, the order of the concatenated platform results, platforms in resolution
  order.  The response is an initial segment of the sorted, filtered list, and that list
  keeps, among entries of equal arrival time, the order of the concatenated platform
  results.
\<close>

theorem arrivals_sorted_stable:
  assumes "reachable s"
  shows "sorted (map arrival_time (arrivals (fst (fetchSingleStationArrivals e i s)))) \<and>
    sorted (map arrival_time (arrivals (fst (fetchMultiStationArrivals e ids s)))) \<and>
    filter (\<lambda>x. arrival_time x = k) (arrivals (fst (fetchMultiStationArrivals e ids s))) =
      filter (\<lambda>x. arrival_time x = k)
        (concat (map arrivals (fst (promiseAllMap (fetchSingleStationArrivals e) ids s)))) \<and>
    (resolveComplex d sid = IdArray ids \<longrightarrow>
       (\<exists>resp. fst (getArrivals e d sid rf mx s) = Inr resp \<and>
          sorted (map scheduled (r_data resp)) \<and>
          prefix (r_data resp) (map toView (rankedArrivals e ids rf s)))) \<and>
    filter (\<lambda>x. arrival_time x = k) (rankedArrivals e ids rf s) =
      applyRouteFilter rf (map (withStatus (fetchServiceStatus e))
        (filter (\<lambda>x. arrival_time x = k)
           (concat (map arrivals
              (fst (promiseAllMap (fetchSingleStationArrivals e) ids s))))))"
proof -
  from assms have "cacheSorted s" by (rule reachable_cacheSorted)
  then have single: "sorted (map arrival_time (arrivals (fst (fetchSingleStationArrivals e i s))))"
    by (rule fetchSingle_sorted)
  have multi: "sorted (map arrival_time (arrivals (fst (fetchMultiStationArrivals e ids s))))"
    by (simp add: fetchMulti_arrivals)
  have multi_ties: "filter (\<lambda>x. arrival_time x = k) (arrivals (fst (fetchMultiStationArrivals e ids s))) =
      filter (\<lambda>x. arrival_time x = k)
        (concat (map arrivals (fst (promiseAllMap (fetchSingleStationArrivals e) ids s))))"
    by (simp only: fetchMulti_arrivals sort_key_stable)
  have scheduled: "map scheduled (map toView xs) = map arrival_time xs" for xs
    by (simp add: toView_def)
  have pre: "prefix (slice0 (rankedArrivals e ids rf s) mx) (rankedArrivals e ids rf s)"
    by (rule slice0_prefix)
  then have "prefix (map arrival_time (slice0 (rankedArrivals e ids rf s) mx))
                    (map arrival_time (rankedArrivals e ids rf s))"
    by (rule map_mono_prefix)
  then have srt: "sorted (map arrival_time (slice0 (rankedArrivals e ids rf s) mx))"
    using rankedArrivals_sorted [of e ids rf s]
    by (auto simp add: prefix_def sorted_append)
  have final: "resolveComplex d sid = IdArray ids \<longrightarrow>
       (\<exists>resp. fst (getArrivals e d sid rf mx s) = Inr resp \<and>
          sorted (map scheduled (r_data resp)) \<and>
          prefix (r_data resp) (map toView (rankedArrivals e ids rf s)))"
  proof
    assume r: "resolveComplex d sid = IdArray ids"
    have "sorted (map scheduled (map toView (slice0 (rankedArrivals e ids rf s) mx)))"
      using srt by (simp only: scheduled)
    moreover have "prefix (map toView (slice0 (rankedArrivals e ids rf s) mx))
                          (map toView (rankedArrivals e ids rf s))"
      using pre by (rule map_mono_prefix)
    ultimately show "\<exists>resp. fst (getArrivals e d sid rf mx s) = Inr resp \<and>
          sorted (map scheduled (r_data resp)) \<and>
          prefix (r_data resp) (map toView (rankedArrivals e ids rf s))"
      by (simp add: getArrivals_IdArray [OF r])
  qed
  from single multi multi_ties final rankedArrivals_ties [of k e ids rf s]
  show ?thesis by blast
qed

lemma tie_single_101:
  "arrivals (fst (fetchSingleStationArrivals tieEnv ''101'' initialServer)) =
     [\<lparr>route_id = ''1'', arrival_time = 3, current_stop = ''Union Sq'',
       last_stop_name = ''Unknown'', service_status = StatusText ''Good Service''\<rparr>]"
  by (simp add: fetchSingleStationArrivals_def fetchArrivalsUpstream_def initialServer_def
      tieEnv_def tieStops_def exampleStopTime_def stopTimeEntry_def parseInt_defs js_or_def
      arrivalMinutes_div Let_def)

lemma tie_single_102:
  "arrivals (fst (fetchSingleStationArrivals tieEnv ''102'' initialServer)) =
     [\<lparr>route_id = ''2'', arrival_time = 3, current_stop = ''Union Sq'',
       last_stop_name = ''Unknown'', service_status = StatusText ''Good Service''\<rparr>,
      \<lparr>route_id = ''3'', arrival_time = 3, current_stop = ''Union Sq'',
       last_stop_name = ''Unknown'', service_status = StatusText ''Good Service''\<rparr>]"
  by (simp add: fetchSingleStationArrivals_def fetchArrivalsUpstream_def initialServer_def
      tieEnv_def tieStops_def exampleStopTime_def stopTimeEntry_def parseInt_defs js_or_def
      arrivalMinutes_div Let_def)

lemma tie_lines:
  "map_sum id (\<lambda>resp. map line (r_data resp))
     (fst (getArrivals tieEnv exampleDirectory ''R20'' None 30 initialServer)) =
     Inr [''1'', ''2'', ''3'']"
proof -
  have st: "fetchServiceStatus tieEnv = Map.empty"
    by (simp add: fetchServiceStatus_def tieEnv_def)
  show ?thesis
    by (simp add: getArrivals_IdArray [OF example_resolve] rankedArrivals_def fetchMulti_arrivals
        promiseAllMap_arrivals_distinct tie_single_101 tie_single_102 withStatus_def st
        inherited_defs applyRouteFilter_def slice0_def toView_def
        del: promiseAllMap.simps)
qed

theorem arrivals_sorted_stable_witness:
  "reachable initialServer \<and>
   resolveComplex exampleDirectory ''R20'' = IdArray [''101'', ''102''] \<and>
   map_sum id (\<lambda>resp. map scheduled (r_data resp))
     (fst (getArrivals exampleEnv exampleDirectory ''R20'' None 30 initialServer)) = Inr [1, 3] \<and>
   sorted [1, 3 :: int] \<and>
   map_sum id (\<lambda>resp. map line (r_data resp))
     (fst (getArrivals tieEnv exampleDirectory ''R20'' None 30 initialServer)) =
     Inr [''1'', ''2'', ''3'']"
proof -
  note t = arrivals_sorted_stable [OF reachable_init, where e = exampleEnv and i = "''101''" and
      ids = "[''101'', ''102'']" and k = 1 and d = exampleDirectory and sid = "''R20''" and
      rf = None and mx = 30]
  from t example_resolve
  have "\<exists>resp. fst (getArrivals exampleEnv exampleDirectory ''R20'' None 30 initialServer) = Inr resp \<and>
          sorted (map scheduled (r_data resp)) \<and>
          prefix (r_data resp) (map toView (rankedArrivals exampleEnv [''101'', ''102''] None initialServer))"
    by blast
  then have "map_sum id (\<lambda>resp. map scheduled (r_data resp))
     (fst (getArrivals exampleEnv exampleDirectory ''R20'' None 30 initialServer)) = Inr [1, 3] \<and>
     sorted [1, 3 :: int]"
    by (auto simp add: example_response slice0_def toView_def exampleEntry1_def exampleEntry2_def)
  with tie_lines example_resolve show ?thesis by (simp add: reachable_init)
qed

section \<open>Arrival minutes of a platform fetch\<close>

lemma arrivalMinutes_floor:
  assumes "\<bar>dsec\<bar> \<le> 10 ^ 12" and "0 \<le> nowMs" and "nowMs \<le> 10 ^ 15"
  shows "arrivalMinutes dsec nowMs = \<lfloor>(real_of_int dsec - real_of_int nowMs / 1000) / 60\<rfloor>"
proof -
  have "(real_of_int dsec - real_of_int nowMs / 1000) / 60 =
        real_of_int (1000 * dsec - nowMs) / real_of_int 60000"
    by simp
  then have "\<lfloor>(real_of_int dsec - real_of_int nowMs / 1000) / 60\<rfloor> = (1000 * dsec - nowMs) div 60000"
    by (simp only: floor_divide_of_int_eq)
  with arrivalMinutes_exact [OF assms] show ?thesis by simp
qed

lemma arrivalMinutes_far:
  "arrivalMinutes 17593886044460 1700000000001 = 293203100741"
proof -
  have d: "toDouble (of_int 17593886044460) = of_int 17593886044460"
    by (rule toDouble_int) simp
  have q: "toDouble (1700000000001 / 1000) = 3565158400002097 / 2097152"
    by (subst toDouble_exponent [where e = 30]) (simp_all add: roundTiesToEven_def)
  have x: "toDouble (36893488147511375823 / 2097152) = 17592186044460"
    by (subst toDouble_exponent [where e = 44]) (simp_all add: roundTiesToEven_def)
  have "toDouble (of_int 293203100741) = of_int 293203100741"
    by (rule toDouble_int) simp
  then have y: "toDouble 293203100741 = 293203100741"
    by simp
  show ?thesis
    using d by (simp add: arrivalMinutes_def q x y)
qed

text \<open>
  Claim C5, as amended.  For a departure time of at most \<open>10 ^ 12\<close> seconds in
  magnitude and a clock value between 0 and \<open>10 ^ 15\<close> ms, a stop-time record whose
  departure time parses to the epoch second \<open>dsec\<close> gives an entry exactly when
  \<open>\<lfloor>(dsec - now / 1000) / 60\<rfloor>\<close> is not negative, and that number is the
  entry's arrival time.  A route id or destination name that is missing becomes
  \<open>Unknown\<close>.  On a cache miss with an upstream reply, the arrivals returned are the
  entries of the records, sorted.  In every state that requests can produce, every entry
  that \<open>fetchSingleStationArrivals\<close> returns, from the cache or from upstream, has an
  arrival time of at least 0.
\<close>

theorem platform_arrival_minutes:
  assumes "reachable s"
  shows
   "(\<bar>dsec\<bar> \<le> 10 ^ 12 \<and> 0 \<le> nowMs \<and> nowMs \<le> 10 ^ 15 \<and>
     departure st = Some dep \<and> dep_time dep = Some t \<and> t \<noteq> [] \<and> parseInt t = Some dsec \<longrightarrow>
      stopTimeEntry nowMs name st =
        (if 0 \<le> \<lfloor>(real_of_int dsec - real_of_int nowMs / 1000) / 60\<rfloor>
         then Some \<lparr>route_id = js_or (Option.bind (Option.bind (trip st) route) route_ref_id) ''Unknown'',
                     arrival_time = \<lfloor>(real_of_int dsec - real_of_int nowMs / 1000) / 60\<rfloor>,
                     current_stop = name,
                     last_stop_name = js_or (Option.bind (Option.bind (trip st) destination) dest_name) ''Unknown'',
                     service_status = StatusText ''Good Service''\<rparr>
         else None)) \<and>
    (\<forall>x. stopTimeEntry nowMs name st = Some x \<and>
          Option.bind (Option.bind (trip st) route) route_ref_id = None \<longrightarrow> route_id x = ''Unknown'') \<and>
    (\<forall>x. stopTimeEntry nowMs name st = Some x \<and>
          Option.bind (Option.bind (trip st) destination) dest_name = None \<longrightarrow>
          last_stop_name x = ''Unknown'') \<and>
    (\<not> arrivalsLive e s i \<and> stopsApi e i = Some sd \<longrightarrow>
       arrivals (fst (fetchSingleStationArrivals e i s)) =
         sort_key arrival_time
           (List.map_filter (stopTimeEntry (now e) (js_or (stop_name sd) i))
              (case stopTimes sd of None \<Rightarrow> [] | Some sts \<Rightarrow> sts))) \<and>
    (\<forall>x \<in> set (arrivals (fst (fetchSingleStationArrivals e i s))). 0 \<le> arrival_time x)"
proof -
  have a: "\<bar>dsec\<bar> \<le> 10 ^ 12 \<and> 0 \<le> nowMs \<and> nowMs \<le> 10 ^ 15 \<and>
     departure st = Some dep \<and> dep_time dep = Some t \<and> t \<noteq> [] \<and> parseInt t = Some dsec \<longrightarrow>
      stopTimeEntry nowMs name st =
        (if 0 \<le> \<lfloor>(real_of_int dsec - real_of_int nowMs / 1000) / 60\<rfloor>
         then Some \<lparr>route_id = js_or (Option.bind (Option.bind (trip st) route) route_ref_id) ''Unknown'',
                     arrival_time = \<lfloor>(real_of_int dsec - real_of_int nowMs / 1000) / 60\<rfloor>,
                     current_stop = name,
                     last_stop_name = js_or (Option.bind (Option.bind (trip st) destination) dest_name) ''Unknown'',
                     service_status = StatusText ''Good Service''\<rparr>
         else None)"
  proof
    assume h: "\<bar>dsec\<bar> \<le> 10 ^ 12 \<and> 0 \<le> nowMs \<and> nowMs \<le> 10 ^ 15 \<and>
     departure st = Some dep \<and> dep_time dep = Some t \<and> t \<noteq> [] \<and> parseInt t = Some dsec"
    then have "arrivalMinutes dsec nowMs = \<lfloor>(real_of_int dsec - real_of_int nowMs / 1000) / 60\<rfloor>"
      by (intro arrivalMinutes_floor) simp_all
    with h show "stopTimeEntry nowMs name st =
        (if 0 \<le> \<lfloor>(real_of_int dsec - real_of_int nowMs / 1000) / 60\<rfloor>
         then Some \<lparr>route_id = js_or (Option.bind (Option.bind (trip st) route) route_ref_id) ''Unknown'',
                     arrival_time = \<lfloor>(real_of_int dsec - real_of_int nowMs / 1000) / 60\<rfloor>,
                     current_stop = name,
                     last_stop_name = js_or (Option.bind (Option.bind (trip st) destination) dest_name) ''Unknown'',
                     service_status = StatusText ''Good Service''\<rparr>
         else None)"
      by (simp add: stopTimeEntry_def)
  qed
  have b: "\<forall>x. stopTimeEntry nowMs name st = Some x \<and>
          Option.bind (Option.bind (trip st) route) route_ref_id = None \<longrightarrow> route_id x = ''Unknown''"
    by (auto simp add: stopTimeEntry_def js_or_def split: option.splits if_splits)
  have b': "\<forall>x. stopTimeEntry nowMs name st = Some x \<and>
          Option.bind (Option.bind (trip st) destination) dest_name = None \<longrightarrow>
          last_stop_name x = ''Unknown''"
    by (auto simp add: stopTimeEntry_def js_or_def split: option.splits if_splits)
  have c: "\<not> arrivalsLive e s i \<and> stopsApi e i = Some sd \<longrightarrow>
       arrivals (fst (fetchSingleStationArrivals e i s)) =
         sort_key arrival_time
           (List.map_filter (stopTimeEntry (now e) (js_or (stop_name sd) i))
              (case stopTimes sd of None \<Rightarrow> [] | Some sts \<Rightarrow> sts))"
    by (simp add: fetchSingle_miss fetchArrivalsUpstream_def Let_def collectArrivals_map_filter)
  from assms have "cacheNonNegative s" by (rule reachable_cacheNonNegative)
  then have d: "\<forall>x \<in> set (arrivals (fst (fetchSingleStationArrivals e i s))). 0 \<le> arrival_time x"
    by (blast dest: fetchSingle_nonneg)
  from a b b' c d show ?thesis by blast
qed

theorem platform_arrival_minutes_witness:
  "reachable initialServer \<and>
   \<bar>1060 :: int\<bar> \<le> 10 ^ 12 \<and> (0 :: int) \<le> 1000000 \<and> (1000000 :: int) \<le> 10 ^ 15 \<and>
   parseInt ''1060'' = Some 1060 \<and> parseInt ''900'' = Some 900 \<and>
   stopTimeEntry 1000000 ''Union Sq'' (exampleStopTime ''1060'' (Some ''2'') None) = Some exampleEntry2 \<and>
   stopTimeEntry 1000000 ''Union Sq'' (exampleStopTime ''900'' (Some ''2'') None) = None \<and>
   arrivals (fst (fetchSingleStationArrivals exampleEnv ''102'' initialServer)) = [exampleEntry2]"
proof -
  have p: "parseInt ''1060'' = Some 1060" "parseInt ''900'' = Some 900"
    by (simp_all add: parseInt_defs)
  have live: "\<not> arrivalsLive exampleEnv initialServer ''102''"
    by (simp add: arrivalsLive_def initialServer_def)
  have api: "stopsApi exampleEnv ''102'' = Some \<lparr>stop_name = Some ''Union Sq'',
              stopTimes = Some [exampleStopTime ''1060'' (Some ''2'') None,
                                exampleStopTime ''900'' (Some ''2'') None]\<rparr>"
    by (simp add: exampleEnv_def exampleStops_def)
  note t1 = platform_arrival_minutes [OF reachable_init,
      where st = "exampleStopTime ''1060'' (Some ''2'') None" and dep = "\<lparr>dep_time = Some ''1060''\<rparr>" and
        t = "''1060''" and dsec = 1060 and nowMs = 1000000 and name = "''Union Sq''" and
        e = exampleEnv and i = "''102''"]
  note t2 = platform_arrival_minutes [OF reachable_init,
      where st = "exampleStopTime ''900'' (Some ''2'') None" and dep = "\<lparr>dep_time = Some ''900''\<rparr>" and
        t = "''900''" and dsec = 900 and nowMs = 1000000 and name = "''Union Sq''" and
        e = exampleEnv and i = "''102''"]
  have e1: "stopTimeEntry 1000000 ''Union Sq'' (exampleStopTime ''1060'' (Some ''2'') None) = Some exampleEntry2"
    using t1 p by (simp add: exampleStopTime_def exampleEntry2_def js_or_def)
  have e2: "stopTimeEntry 1000000 ''Union Sq'' (exampleStopTime ''900'' (Some ''2'') None) = None"
    using t2 p by (simp add: exampleStopTime_def)
  have "arrivals (fst (fetchSingleStationArrivals exampleEnv ''102'' initialServer)) = [exampleEntry2]"
    using t1 live api by (simp add: example_single_102 exampleEnv_sel)
  with p e1 e2 show ?thesis by (simp add: reachable_init)
qed

theorem platform_arrival_minutes_counterexample:
  "departure (exampleStopTime ''17593886044460'' (Some ''2'') None) =
     Some \<lparr>dep_time = Some ''17593886044460''\<rparr> \<and>
   parseInt ''17593886044460'' = Some 17593886044460 \<and>
   \<lfloor>(real_of_int 17593886044460 - real_of_int 1700000000001 / 1000) / 60\<rfloor> = 293203100740 \<and>
   stopTimeEntry 1700000000001 ''Union Sq'' (exampleStopTime ''17593886044460'' (Some ''2'') None) =
     Some \<lparr>route_id = ''2'', arrival_time = 293203100741, current_stop = ''Union Sq'',
           last_stop_name = ''Unknown'', service_status = StatusText ''Good Service''\<rparr>"
proof -
  have p: "parseInt ''17593886044460'' = Some 17593886044460"
    by (simp add: parseInt_defs)
  have f: "\<lfloor>(real_of_int 17593886044460 - real_of_int 1700000000001 / 1000) / 60\<rfloor> = 293203100740"
    by simp
  have e: "stopTimeEntry 1700000000001 ''Union Sq'' (exampleStopTime ''17593886044460'' (Some ''2'') None) =
     Some \<lparr>route_id = ''2'', arrival_time = 293203100741, current_stop = ''Union Sq'',
           last_stop_name = ''Unknown'', service_status = StatusText ''Good Service''\<rparr>"
    by (simp add: stopTimeEntry_def exampleStopTime_def p arrivalMinutes_far js_or_def)
  from p f e show ?thesis by (simp add: exampleStopTime_def)
qed

section \<open>Service status\<close>























section \<open>Station directory and complex resolution\<close>


lemma distinct_fold_setAdd: "distinct acc \<Longrightarrow> distinct (fold setAdd xs acc)"
  by (induction xs arbitrary: acc) (auto simp add: setAdd_def)


lemma distinct_complexMembers: "distinct (complexMembers L p)"
  by (simp add: complexMembers_def distinct_fold_setAdd)

lemma complexMembers_snoc:
  "complexMembers (L @ [st]) p =
     (if parent_id st = p then setAdd (st_id st) (complexMembers L p) else complexMembers L p)"
  by (simp add: complexMembers_def)

lemma complexMembers_empty: "p \<notin> parent_id ` set L \<Longrightarrow> complexMembers L p = []"
proof -
  assume "p \<notin> parent_id ` set L"
  then have "filter (\<lambda>s. parent_id s = p) L = []"
    by (auto simp add: filter_empty_conv)
  then show ?thesis by (simp add: complexMembers_def)
qed


subsection \<open>What the load leaves in the two objects\<close>

lemma loadLine_consistent:
  assumes c: "directoryConsistent d" and nf: "\<not> loadFailed d"
  shows "directoryConsistent (loadLine row d)"
proof (cases "length (split CHR '','' row) \<ge> 5")
  case False
  with c show ?thesis by (simp add: loadLine_def Let_def)
next
  case True
  define parts where "parts = split CHR '','' row"
  define st where "st = \<lparr>st_id = parts ! 0, st_name = parts ! 1, lat = parts ! 2,
                          lon = parts ! 3, parent_id = parts ! 4\<rparr>"
  define L where "L = stationsList d"
  define d1 where "d1 = setStation st (d\<lparr>stationsList := L @ [st]\<rparr>)"
  from nf have lr: "linkedRows d = L" by (simp add: linkedRows_def L_def)
  from c lr have pm: "parentMap d p =
        (if p \<in> parent_id ` set L then Some (complexMembers L p) else None)" for p
    by (simp add: directoryConsistent_def)
  from c lr have plain: "\<forall>s \<in> set L. parent_id s \<notin> set objectPrototypeNames"
    by (simp add: directoryConsistent_def)
  from c have sm: "stationMap d i =
        (if i = ''__proto__'' then None else List.find (\<lambda>s. st_id s = i) (rev L))" for i
    by (simp add: directoryConsistent_def L_def)
  from c have sp: "stationMapProto d = List.find (\<lambda>s. st_id s = ''__proto__'') (rev L)"
    by (simp add: directoryConsistent_def L_def)
  have d1_list: "stationsList d1 = L @ [st]" and d1_failed: "loadFailed d1 = False"
    and d1_parent: "parentMap d1 = parentMap d"
    using nf by (simp_all add: d1_def setStation_def)
  have d1_sm: "stationMap d1 i =
        (if i = ''__proto__'' then None else List.find (\<lambda>s. st_id s = i) (rev (L @ [st])))" for i
    using sm by (auto simp add: d1_def setStation_def)
  have d1_sp: "stationMapProto d1 = List.find (\<lambda>s. st_id s = ''__proto__'') (rev (L @ [st]))"
    using sp by (simp add: d1_def setStation_def)
  have eq: "loadLine row d =
      (case getProperty (parentMap d1) (parent_id st) of
         Undefined \<Rightarrow> d1\<lparr>parentMap := (parentMap d1)(parent_id st \<mapsto> [st_id st])\<rparr>
       | Own members \<Rightarrow>
           if st_id st \<in> set members then d1
           else d1\<lparr>parentMap := (parentMap d1)(parent_id st \<mapsto> members @ [st_id st])\<rparr>
       | Inherited v \<Rightarrow> d1\<lparr>loadFailed := True\<rparr>)"
    unfolding loadLine_def Let_def d1_def st_def parts_def L_def using True by (simp only: if_True)
  show ?thesis
  proof (cases "parent_id st \<in> set objectPrototypeNames")
    case True
    with plain have "parent_id st \<notin> parent_id ` set L" by auto
    then have "parentMap d1 (parent_id st) = None" by (simp add: d1_parent pm)
    from getProperty_inherited [of "parentMap d1" "parent_id st", OF this True]
    obtain v where "getProperty (parentMap d1) (parent_id st) = Inherited v" by blast
    then have r: "loadLine row d = d1\<lparr>loadFailed := True\<rparr>" by (simp add: eq)
    have "linkedRows (d1\<lparr>loadFailed := True\<rparr>) = L"
      by (simp add: linkedRows_def d1_list)
    with pm plain d1_sm d1_sp True show ?thesis
      unfolding r directoryConsistent_def
      by (simp add: d1_list d1_parent)
  next
    case False
    have upd: "loadLine row d =
        d1\<lparr>parentMap := (parentMap d1)(parent_id st \<mapsto>
               setAdd (st_id st) (complexMembers L (parent_id st)))\<rparr>"
    proof (cases "parent_id st \<in> parent_id ` set L")
      case True
      then have "getProperty (parentMap d1) (parent_id st) = Own (complexMembers L (parent_id st))"
        by (simp add: getProperty_own d1_parent pm)
      moreover have "(parentMap d1)(parent_id st \<mapsto> complexMembers L (parent_id st)) = parentMap d1"
        by (rule map_upd_triv) (simp add: d1_parent pm True)
      ultimately show ?thesis
        by (simp add: eq setAdd_def)
    next
      case nopar: False
      then have "getProperty (parentMap d1) (parent_id st) = Undefined"
        using False by (simp add: getProperty_plain d1_parent pm)
      with nopar show ?thesis
        by (simp add: eq setAdd_def complexMembers_empty)
    qed
    have lr': "linkedRows (loadLine row d) = L @ [st]"
      by (simp add: upd linkedRows_def d1_list d1_failed)
    have a: "parentMap (loadLine row d) p =
        (if p \<in> parent_id ` set (L @ [st])
         then Some (complexMembers (L @ [st]) p) else None)" for p
      using pm [of p] by (auto simp add: upd d1_parent complexMembers_snoc)
    have b: "\<forall>s \<in> set (L @ [st]). parent_id s \<notin> set objectPrototypeNames"
      using plain False by auto
    have c': "stationMap (loadLine row d) i =
        (if i = ''__proto__'' then None else List.find (\<lambda>s. st_id s = i) (rev (L @ [st])))" for i
      using d1_sm [of i] by (simp add: upd)
    have d': "stationMapProto (loadLine row d) = List.find (\<lambda>s. st_id s = ''__proto__'') (rev (L @ [st]))"
      using d1_sp by (simp add: upd)
    have e': "stationsList (loadLine row d) = L @ [st]" "\<not> loadFailed (loadLine row d)"
      by (simp_all add: upd d1_list d1_failed)
    from a b c' d' e' lr' show ?thesis
      unfolding directoryConsistent_def by simp
  qed
qed

lemma loadLines_consistent:
  "directoryConsistent d \<Longrightarrow> \<not> loadFailed d \<Longrightarrow> directoryConsistent (loadLines rows d)"
  by (induction rows arbitrary: d) (simp_all add: loadLine_consistent Let_def)

lemma loadStations_consistent: "directoryConsistent (loadStations csv)"
proof (cases csv)
  case None
  then show ?thesis
    by (simp add: loadStations_def directoryConsistent_def emptyDirectory_def linkedRows_def)
next
  case (Some raw)
  have "directoryConsistent emptyDirectory" "\<not> loadFailed emptyDirectory"
    by (simp_all add: directoryConsistent_def emptyDirectory_def linkedRows_def)
  then show ?thesis
    by (simp add: Some loadStations_def loadLines_consistent)
qed


subsection \<open>Resolution in a consistent directory\<close>







lemma resolve_distinct:
  assumes "directoryConsistent d" and "resolveComplex d x = IdArray ids"
  shows "distinct ids"
proof -
  have pm: "parentMap d p = Some ms \<Longrightarrow> distinct ms" for p ms
    using assms(1) by (auto simp add: directoryConsistent_def distinct_complexMembers split: if_splits)
  have gp: "getProperty (parentMap d) p = Own ms \<Longrightarrow> distinct ms" for p ms
    using pm by (auto simp add: getProperty_def split: option.splits)
  have rel: "getRelatedStationIds d x = IdArray ids \<Longrightarrow> distinct ids"
    by (auto simp add: getRelatedStationIds_def Let_def split: if_splits property.splits dest: gp)
  from assms(2) show ?thesis
    by (auto simp add: resolveComplex_def Let_def split: if_splits property.splits
        dest: gp rel)
qed


subsection \<open>The example files, loaded\<close>

lemmas load_defs = loadStations_def trim_def isWhiteSpace_def loadLine_def setStation_def
  emptyDirectory_def getProperty_def inheritedProperty_def objectMethods_def Let_def

lemma example_csv_loaded:
  "loadStations (Some exampleCsv) =
     \<lparr>stationsList =
        [\<lparr>st_id = ''101'', st_name = ''Union Sq'', lat = ''0'', lon = ''0'', parent_id = ''R20''\<rparr>,
         \<lparr>st_id = ''102'', st_name = ''Union Sq'', lat = ''0'', lon = ''0'', parent_id = ''R20''\<rparr>],
      loadFailed = False,
      stationMap =
        [''101'' \<mapsto> \<lparr>st_id = ''101'', st_name = ''Union Sq'', lat = ''0'', lon = ''0'', parent_id = ''R20''\<rparr>,
         ''102'' \<mapsto> \<lparr>st_id = ''102'', st_name = ''Union Sq'', lat = ''0'', lon = ''0'', parent_id = ''R20''\<rparr>],
      stationMapProto = None,
      parentMap = [''R20'' \<mapsto> [''101'', ''102'']]\<rparr>"
  by (simp add: exampleCsv_def load_defs)

lemma example_csv_is_directory: "loadStations (Some exampleCsv) = exampleDirectory"
  by (simp add: example_csv_loaded exampleDirectory_def)

lemma example_csv_resolve:
  "resolveComplex (loadStations (Some exampleCsv)) ''R20'' = IdArray [''101'', ''102'']"
  by (simp add: example_csv_is_directory example_resolve)







section \<open>The two caches\<close>

lemma fetchRoutesUpstream_calls:
  "upstreamCalls (snd (fetchRoutesUpstream e i s)) = upstreamCalls s @ [i]"
  by (simp add: fetchRoutesUpstream_def Let_def split: option.splits)

lemma fetchRoutesUpstream_cache:
  "stationRoutesCache (snd (fetchRoutesUpstream e i s)) =
     (case stopsApi e i of
        None \<Rightarrow> stationRoutesCache s
      | Some sd \<Rightarrow> (stationRoutesCache s)(i \<mapsto>
           \<lparr>data = fst (fetchRoutesUpstream e i s), timestamp = now e\<rparr>))"
  by (simp add: fetchRoutesUpstream_def Let_def split: option.splits)

lemma fetchStationRoutes_hit:
  "routesLive e s i \<Longrightarrow> fetchStationRoutes e i s = (data (the (stationRoutesCache s i)), s)"
  by (simp add: fetchStationRoutes_def routesLive_def split: option.splits)

lemma fetchStationRoutes_miss:
  "\<not> routesLive e s i \<Longrightarrow> fetchStationRoutes e i s = fetchRoutesUpstream e i s"
  by (simp add: fetchStationRoutes_def routesLive_def split: option.splits)

lemma fetchStationRoutes_calls:
  "upstreamCalls (snd (fetchStationRoutes e i s)) =
     (if routesLive e s i then upstreamCalls s else upstreamCalls s @ [i])"
  by (simp add: fetchStationRoutes_hit fetchStationRoutes_miss fetchRoutesUpstream_calls)

lemma fetchStationRoutes_other:
  "k \<noteq> i \<Longrightarrow> stationRoutesCache (snd (fetchStationRoutes e i s)) k = stationRoutesCache s k"
  by (cases "routesLive e s i")
     (simp_all add: fetchStationRoutes_hit fetchStationRoutes_miss fetchRoutesUpstream_cache
        split: option.splits)

lemma routesLive_slot:
  "stationRoutesCache s1 k = stationRoutesCache s k \<Longrightarrow> routesLive e s1 k = routesLive e s k"
  by (simp add: routesLive_def)

lemma routesLive_after_fetch:
  assumes "\<not> routesLive e1 s p" and "stopsApi e1 p \<noteq> None"
  shows "routesLive e2 (snd (fetchStationRoutes e1 p s)) p \<longleftrightarrow> now e2 - now e1 < ROUTES_CACHE_TTL"
  using assms
  by (auto simp add: fetchStationRoutes_miss fetchRoutesUpstream_cache routesLive_def)

lemma routesLive_after_failure:
  assumes "\<not> routesLive e1 s p" and "stopsApi e1 p = None"
  shows "stationRoutesCache (snd (fetchStationRoutes e1 p s)) p = stationRoutesCache s p"
  using assms by (simp add: fetchStationRoutes_miss fetchRoutesUpstream_cache)

lemma promiseAllMap_routes_slot:
  "distinct ids \<Longrightarrow>
   stationRoutesCache (snd (promiseAllMap (fetchStationRoutes e) ids s)) p =
     (if p \<in> set ids then stationRoutesCache (snd (fetchStationRoutes e p s)) p
      else stationRoutesCache s p)"
proof (induction ids arbitrary: s)
  case Nil
  then show ?case by simp
next
  case (Cons i ids)
  let ?s1 = "snd (fetchStationRoutes e i s)"
  from Cons.prems have d: "distinct ids" and ni: "i \<notin> set ids" by simp_all
  have ih: "stationRoutesCache (snd (promiseAllMap (fetchStationRoutes e) ids ?s1)) p =
     (if p \<in> set ids then stationRoutesCache (snd (fetchStationRoutes e p ?s1)) p
      else stationRoutesCache ?s1 p)"
    using Cons.IH [OF d] .
  show ?case
  proof (cases "p \<in> set ids")
    case True
    with ni have pi: "p \<noteq> i" by auto
    then have slot: "stationRoutesCache ?s1 p = stationRoutesCache s p"
      by (rule fetchStationRoutes_other)
    then have live: "routesLive e ?s1 p = routesLive e s p"
      by (rule routesLive_slot)
    have "stationRoutesCache (snd (fetchStationRoutes e p ?s1)) p =
          stationRoutesCache (snd (fetchStationRoutes e p s)) p"
    proof (cases "routesLive e s p")
      case True
      with live slot show ?thesis by (simp add: fetchStationRoutes_hit)
    next
      case False
      with live slot show ?thesis
        by (simp add: fetchStationRoutes_miss fetchRoutesUpstream_cache
            fetchRoutesUpstream_def Let_def split: option.splits)
    qed
    with ih True show ?thesis by (simp add: promiseAllMap_Cons_snd del: promiseAllMap.simps)
  next
    case False
    with ih show ?thesis
      by (simp add: promiseAllMap_Cons_snd fetchStationRoutes_other del: promiseAllMap.simps)
  qed
qed

lemma promiseAllMap_routes_calls:
  "distinct ids \<Longrightarrow>
   count_list (upstreamCalls (snd (promiseAllMap (fetchStationRoutes e) ids s))) p =
   count_list (upstreamCalls s) p + (if p \<in> set ids \<and> \<not> routesLive e s p then 1 else 0)"
proof (induction ids arbitrary: s)
  case Nil
  then show ?case by simp
next
  case (Cons i ids)
  let ?s1 = "snd (fetchStationRoutes e i s)"
  from Cons.prems have d: "distinct ids" and ni: "i \<notin> set ids" by simp_all
  have ih: "count_list (upstreamCalls (snd (promiseAllMap (fetchStationRoutes e) ids ?s1))) p =
     count_list (upstreamCalls ?s1) p + (if p \<in> set ids \<and> \<not> routesLive e ?s1 p then 1 else 0)"
    using Cons.IH [OF d] .
  have first: "count_list (upstreamCalls ?s1) p =
     count_list (upstreamCalls s) p + (if p = i \<and> \<not> routesLive e s i then 1 else 0)"
    by (simp add: fetchStationRoutes_calls)
  have live: "p \<in> set ids \<Longrightarrow> routesLive e ?s1 p = routesLive e s p"
    using ni fetchStationRoutes_other [of p i e s] routesLive_slot [of ?s1 p s e] by auto
  from ih first live ni show ?case
    by (auto simp add: promiseAllMap_Cons_snd simp del: promiseAllMap.simps)
qed

lemma getRoutesForStation_IdArray:
  "resolveComplex d sid = IdArray ids \<Longrightarrow>
   snd (getRoutesForStation e d sid s) = snd (promiseAllMap (fetchStationRoutes e) ids s)"
  by (simp add: getRoutesForStation_state)

lemma getRoutesForStation_NotArray:
  "resolveComplex d sid = NotArray v \<Longrightarrow> getRoutesForStation e d sid s = (Inl TypeError, s)"
  by (simp add: getRoutesForStation_def)

lemma getRoutesForStation_calls:
  assumes "resolveComplex d sid = IdArray ids" and "distinct ids"
  shows "count_list (upstreamCalls (snd (getRoutesForStation e d sid s))) p =
   count_list (upstreamCalls s) p +
     (if p \<in> set ids \<and> \<not> routesLive e s p then 1 else 0)"
  by (simp only: getRoutesForStation_IdArray [OF assms(1)] promiseAllMap_routes_calls [OF assms(2)])

lemma getRoutesForStation_slot:
  assumes "resolveComplex d sid = IdArray ids" and "distinct ids"
  shows "stationRoutesCache (snd (getRoutesForStation e d sid s)) p =
     (if p \<in> set ids then stationRoutesCache (snd (fetchStationRoutes e p s)) p
      else stationRoutesCache s p)"
  by (simp only: getRoutesForStation_IdArray [OF assms(1)] promiseAllMap_routes_slot [OF assms(2)])

lemma routes_two_calls_array:
  assumes res: "resolveComplex d sid = IdArray ids" and dist: "distinct ids"
    and up: "stopsApi e1 p \<noteq> None"
    and near: "now e2 - now e1 < ROUTES_CACHE_TTL"
  shows "count_list (upstreamCalls (snd (getRoutesForStation e2 d sid
            (snd (getRoutesForStation e1 d sid s))))) p
         \<le> count_list (upstreamCalls s) p + 1"
proof -
  let ?s1 = "snd (getRoutesForStation e1 d sid s)"
  have c1: "count_list (upstreamCalls ?s1) p = count_list (upstreamCalls s) p +
     (if p \<in> set ids \<and> \<not> routesLive e1 s p then 1 else 0)"
    by (rule getRoutesForStation_calls [OF res dist])
  have c2: "count_list (upstreamCalls (snd (getRoutesForStation e2 d sid ?s1))) p =
     count_list (upstreamCalls ?s1) p +
     (if p \<in> set ids \<and> \<not> routesLive e2 ?s1 p then 1 else 0)"
    by (rule getRoutesForStation_calls [OF res dist])
  have "routesLive e2 ?s1 p" if "p \<in> set ids" and "\<not> routesLive e1 s p"
  proof -
    from that have "stationRoutesCache ?s1 p = stationRoutesCache (snd (fetchStationRoutes e1 p s)) p"
      by (simp add: getRoutesForStation_slot [OF res dist])
    then have "routesLive e2 ?s1 p = routesLive e2 (snd (fetchStationRoutes e1 p s)) p"
      by (rule routesLive_slot)
    with that up near show ?thesis
      by (simp add: routesLive_after_fetch)
  qed
  with c1 c2 show ?thesis by auto
qed

lemma routes_two_calls:
  assumes dist: "\<And>ids. resolveComplex d sid = IdArray ids \<Longrightarrow> distinct ids"
    and up: "stopsApi e1 p \<noteq> None"
    and near: "now e2 - now e1 < ROUTES_CACHE_TTL"
  shows "count_list (upstreamCalls (snd (getRoutesForStation e2 d sid
            (snd (getRoutesForStation e1 d sid s))))) p
         \<le> count_list (upstreamCalls s) p + 1"
proof (cases "resolveComplex d sid")
  case (IdArray ids)
  from routes_two_calls_array [OF IdArray dist [OF IdArray] up near] show ?thesis .
next
  case (NotArray v)
  then show ?thesis by (simp add: getRoutesForStation_NotArray)
qed

lemma routes_call_after_expiry:
  assumes res: "resolveComplex d sid = IdArray ids" and dist: "distinct ids"
    and p: "p \<in> set ids"
    and first: "\<not> routesLive e1 s p"
    and late: "now e2 - now e1 \<ge> ROUTES_CACHE_TTL"
  shows "count_list (upstreamCalls (snd (getRoutesForStation e2 d sid
            (snd (getRoutesForStation e1 d sid s))))) p
         = count_list (upstreamCalls s) p + 2"
proof -
  let ?s1 = "snd (getRoutesForStation e1 d sid s)"
  have c1: "count_list (upstreamCalls ?s1) p = count_list (upstreamCalls s) p + 1"
    using p first by (simp add: getRoutesForStation_calls [OF res dist])
  have slot: "stationRoutesCache ?s1 p = stationRoutesCache (snd (fetchStationRoutes e1 p s)) p"
    using p by (simp add: getRoutesForStation_slot [OF res dist])
  have "\<not> routesLive e2 ?s1 p"
  proof (cases "stopsApi e1 p")
    case None
    with first have "stationRoutesCache ?s1 p = stationRoutesCache s p"
      using slot by (simp add: routesLive_after_failure)
    then have "routesLive e2 ?s1 p = routesLive e2 s p" by (rule routesLive_slot)
    moreover have "\<not> routesLive e2 s p"
      using first late by (auto simp add: routesLive_def ROUTES_CACHE_TTL_def split: option.splits)
    ultimately show ?thesis by simp
  next
    case (Some sd)
    have "routesLive e2 ?s1 p = routesLive e2 (snd (fetchStationRoutes e1 p s)) p"
      using slot by (rule routesLive_slot)
    with first Some late show ?thesis
      by (simp add: routesLive_after_fetch)
  qed
  with c1 p show ?thesis
    by (simp add: getRoutesForStation_calls [OF res dist])
qed

lemma fetchArrivalsUpstream_calls:
  "upstreamCalls (snd (fetchArrivalsUpstream e i s)) = upstreamCalls s @ [i]"
  by (simp add: fetchArrivalsUpstream_def Let_def split: option.splits)

lemma fetchArrivalsUpstream_cache:
  "arrivalsCache (snd (fetchArrivalsUpstream e i s)) =
     (case stopsApi e i of
        None \<Rightarrow> arrivalsCache s
      | Some sd \<Rightarrow> (arrivalsCache s)(i \<mapsto>
           \<lparr>data = fst (fetchArrivalsUpstream e i s), timestamp = now e\<rparr>))"
  by (simp add: fetchArrivalsUpstream_def Let_def split: option.splits)

lemma fetchArrivalsUpstream_failure:
  "stopsApi e i = None \<Longrightarrow>
   fst (fetchArrivalsUpstream e i s) = \<lparr>stationName = i, arrivals = []\<rparr>"
  by (simp add: fetchArrivalsUpstream_def Let_def)

lemma fetchRoutesUpstream_failure:
  "stopsApi e i = None \<Longrightarrow> fst (fetchRoutesUpstream e i s) = []"
  by (simp add: fetchRoutesUpstream_def Let_def)

text \<open>
  Claim C3, as amended.  The arrivals cache (TTL 20000 ms) and the routes cache (TTL
  300000 ms) answer a request without an upstream call if and only if an entry exists
  with \<open>now - timestamp < TTL\<close>; the state is then left as it was.  On a miss one
  upstream call is issued.  When it succeeds, its result is stored with the current
  timestamp and returned.  When it fails, the empty result is returned and the cache is
  left as it was.  Consequently, for a platform whose upstream is up at a first request to
  \<open>getRoutesForStation\<close>, that request and a second one for the same station less
  than the TTL later issue at most one upstream call for the platform together; and a
  second request at least the TTL after a first one that fetched a platform (one of the
  platform ids \<open>ids\<close> that the station id resolves to) fetches that platform again.
\<close>

theorem cache_read_through:
  "CACHE_TTL = 20000 \<and> ROUTES_CACHE_TTL = 300000 \<and>
   (arrivalsLive e s i \<longleftrightarrow> (\<exists>c. arrivalsCache s i = Some c \<and> now e - timestamp c < CACHE_TTL)) \<and>
   (routesLive e s i \<longleftrightarrow> (\<exists>c. stationRoutesCache s i = Some c \<and> now e - timestamp c < ROUTES_CACHE_TTL)) \<and>
   (upstreamCalls (snd (fetchSingleStationArrivals e i s)) = upstreamCalls s \<longleftrightarrow> arrivalsLive e s i) \<and>
   (arrivalsLive e s i \<longrightarrow>
      fetchSingleStationArrivals e i s = (data (the (arrivalsCache s i)), s)) \<and>
   (\<not> arrivalsLive e s i \<longrightarrow>
      upstreamCalls (snd (fetchSingleStationArrivals e i s)) = upstreamCalls s @ [i]) \<and>
   (\<not> arrivalsLive e s i \<and> stopsApi e i \<noteq> None \<longrightarrow>
      arrivalsCache (snd (fetchSingleStationArrivals e i s)) =
        (arrivalsCache s)(i \<mapsto> \<lparr>data = fst (fetchSingleStationArrivals e i s), timestamp = now e\<rparr>)) \<and>
   (\<not> arrivalsLive e s i \<and> stopsApi e i = None \<longrightarrow>
      arrivalsCache (snd (fetchSingleStationArrivals e i s)) = arrivalsCache s \<and>
      fst (fetchSingleStationArrivals e i s) = \<lparr>stationName = i, arrivals = []\<rparr>) \<and>
   (upstreamCalls (snd (fetchStationRoutes e i s)) = upstreamCalls s \<longleftrightarrow> routesLive e s i) \<and>
   (routesLive e s i \<longrightarrow>
      fetchStationRoutes e i s = (data (the (stationRoutesCache s i)), s)) \<and>
   (\<not> routesLive e s i \<longrightarrow>
      upstreamCalls (snd (fetchStationRoutes e i s)) = upstreamCalls s @ [i]) \<and>
   (\<not> routesLive e s i \<and> stopsApi e i \<noteq> None \<longrightarrow>
      stationRoutesCache (snd (fetchStationRoutes e i s)) =
        (stationRoutesCache s)(i \<mapsto> \<lparr>data = fst (fetchStationRoutes e i s), timestamp = now e\<rparr>)) \<and>
   (\<not> routesLive e s i \<and> stopsApi e i = None \<longrightarrow>
      stationRoutesCache (snd (fetchStationRoutes e i s)) = stationRoutesCache s \<and>
      fst (fetchStationRoutes e i s) = []) \<and>
   (stopsApi e i \<noteq> None \<and> now e2 - now e < ROUTES_CACHE_TTL \<longrightarrow>
      count_list (upstreamCalls (snd (getRoutesForStation e2 (loadStations csv) sid
                 (snd (getRoutesForStation e (loadStations csv) sid s))))) i
        \<le> count_list (upstreamCalls s) i + 1) \<and>
   (resolveComplex (loadStations csv) sid = IdArray ids \<and> i \<in> set ids \<and> \<not> routesLive e s i \<and>
    now e2 - now e \<ge> ROUTES_CACHE_TTL \<longrightarrow>
      count_list (upstreamCalls (snd (getRoutesForStation e2 (loadStations csv) sid
                 (snd (getRoutesForStation e (loadStations csv) sid s))))) i
        = count_list (upstreamCalls s) i + 2)"
proof -
  have dist: "resolveComplex (loadStations csv) sid = IdArray ids \<Longrightarrow> distinct ids" for ids
    by (rule resolve_distinct [OF loadStations_consistent])
  have ttl: "CACHE_TTL = 20000 \<and> ROUTES_CACHE_TTL = 300000"
    by (simp add: CACHE_TTL_def ROUTES_CACHE_TTL_def)
  have la: "arrivalsLive e s i \<longleftrightarrow> (\<exists>c. arrivalsCache s i = Some c \<and> now e - timestamp c < CACHE_TTL)"
    by (simp add: arrivalsLive_def split: option.splits)
  have lr: "routesLive e s i \<longleftrightarrow> (\<exists>c. stationRoutesCache s i = Some c \<and> now e - timestamp c < ROUTES_CACHE_TTL)"
    by (simp add: routesLive_def split: option.splits)
  have a1: "upstreamCalls (snd (fetchSingleStationArrivals e i s)) = upstreamCalls s \<longleftrightarrow> arrivalsLive e s i"
    by (cases "arrivalsLive e s i")
       (simp_all add: fetchSingle_hit fetchSingle_miss fetchArrivalsUpstream_calls)
  have a2: "arrivalsLive e s i \<longrightarrow>
      fetchSingleStationArrivals e i s = (data (the (arrivalsCache s i)), s)"
    by (simp add: fetchSingle_hit)
  have a3: "\<not> arrivalsLive e s i \<longrightarrow>
      upstreamCalls (snd (fetchSingleStationArrivals e i s)) = upstreamCalls s @ [i]"
    by (simp add: fetchSingle_miss fetchArrivalsUpstream_calls)
  have a4: "\<not> arrivalsLive e s i \<and> stopsApi e i \<noteq> None \<longrightarrow>
      arrivalsCache (snd (fetchSingleStationArrivals e i s)) =
        (arrivalsCache s)(i \<mapsto> \<lparr>data = fst (fetchSingleStationArrivals e i s), timestamp = now e\<rparr>)"
    by (auto simp add: fetchSingle_miss fetchArrivalsUpstream_cache)
  have a5: "\<not> arrivalsLive e s i \<and> stopsApi e i = None \<longrightarrow>
      arrivalsCache (snd (fetchSingleStationArrivals e i s)) = arrivalsCache s \<and>
      fst (fetchSingleStationArrivals e i s) = \<lparr>stationName = i, arrivals = []\<rparr>"
    by (simp add: fetchSingle_miss fetchArrivalsUpstream_cache fetchArrivalsUpstream_failure)
  have r1: "upstreamCalls (snd (fetchStationRoutes e i s)) = upstreamCalls s \<longleftrightarrow> routesLive e s i"
    by (simp add: fetchStationRoutes_calls)
  have r2: "routesLive e s i \<longrightarrow>
      fetchStationRoutes e i s = (data (the (stationRoutesCache s i)), s)"
    by (simp add: fetchStationRoutes_hit)
  have r3: "\<not> routesLive e s i \<longrightarrow>
      upstreamCalls (snd (fetchStationRoutes e i s)) = upstreamCalls s @ [i]"
    by (simp add: fetchStationRoutes_calls)
  have r4: "\<not> routesLive e s i \<and> stopsApi e i \<noteq> None \<longrightarrow>
      stationRoutesCache (snd (fetchStationRoutes e i s)) =
        (stationRoutesCache s)(i \<mapsto> \<lparr>data = fst (fetchStationRoutes e i s), timestamp = now e\<rparr>)"
    by (auto simp add: fetchStationRoutes_miss fetchRoutesUpstream_cache)
  have r5: "\<not> routesLive e s i \<and> stopsApi e i = None \<longrightarrow>
      stationRoutesCache (snd (fetchStationRoutes e i s)) = stationRoutesCache s \<and>
      fst (fetchStationRoutes e i s) = []"
    by (simp add: fetchStationRoutes_miss fetchRoutesUpstream_cache fetchRoutesUpstream_failure)
  have two: "stopsApi e i \<noteq> None \<and> now e2 - now e < ROUTES_CACHE_TTL \<longrightarrow>
      count_list (upstreamCalls (snd (getRoutesForStation e2 (loadStations csv) sid
                 (snd (getRoutesForStation e (loadStations csv) sid s))))) i
        \<le> count_list (upstreamCalls s) i + 1"
    using routes_two_calls [of "loadStations csv" sid e i e2 s] dist by blast
  have expiry: "resolveComplex (loadStations csv) sid = IdArray ids \<and> i \<in> set ids \<and>
    \<not> routesLive e s i \<and> now e2 - now e \<ge> ROUTES_CACHE_TTL \<longrightarrow>
      count_list (upstreamCalls (snd (getRoutesForStation e2 (loadStations csv) sid
                 (snd (getRoutesForStation e (loadStations csv) sid s))))) i
        = count_list (upstreamCalls s) i + 2"
    using routes_call_after_expiry [of "loadStations csv" sid ids i e s e2] dist by blast
  from ttl la lr a1 a2 a3 a4 a5 r1 r2 r3 r4 r5 two expiry show ?thesis
    by (intro conjI) simp_all
qed

lemma initialServer_calls: "upstreamCalls initialServer = []"
  by (simp add: initialServer_def)

lemma example_routes_not_live: "\<not> routesLive e initialServer p"
  by (simp add: routesLive_def initialServer_def)

theorem cache_read_through_witness:
  "resolveComplex (loadStations (Some exampleCsv)) ''R20'' = IdArray [''101'', ''102''] \<and>
   stopsApi exampleEnv ''101'' \<noteq> None \<and> stopsApi exampleEnv ''102'' \<noteq> None \<and>
   now exampleEnvLater - now exampleEnv < ROUTES_CACHE_TTL \<and>
   count_list (upstreamCalls (snd (getRoutesForStation exampleEnvLater (loadStations (Some exampleCsv)) ''R20''
      (snd (getRoutesForStation exampleEnv (loadStations (Some exampleCsv)) ''R20'' initialServer))))) ''101'' \<le> 1 \<and>
   ''101'' \<in> set [''101'', ''102''] \<and>
   \<not> routesLive exampleEnv initialServer ''101'' \<and>
   now exampleEnvExpired - now exampleEnv \<ge> ROUTES_CACHE_TTL \<and>
   count_list (upstreamCalls (snd (getRoutesForStation exampleEnvExpired (loadStations (Some exampleCsv)) ''R20''
      (snd (getRoutesForStation exampleEnv (loadStations (Some exampleCsv)) ''R20'' initialServer))))) ''101'' = 2 \<and>
   \<not> arrivalsLive exampleEnv initialServer ''101'' \<and>
   arrivalsLive exampleEnvLater (snd (fetchSingleStationArrivals exampleEnv ''101'' initialServer)) ''101'' \<and>
   fetchSingleStationArrivals exampleEnvLater ''101'' (snd (fetchSingleStationArrivals exampleEnv ''101'' initialServer)) =
     (\<lparr>stationName = ''Union Sq'', arrivals = [exampleEntry1]\<rparr>,
      snd (fetchSingleStationArrivals exampleEnv ''101'' initialServer))"
proof -
  let ?D = "loadStations (Some exampleCsv)"
  let ?s1 = "snd (fetchSingleStationArrivals exampleEnv ''101'' initialServer)"
  note t1 = cache_read_through [where e = exampleEnv and s = initialServer and i = "''101''" and
      csv = "Some exampleCsv" and sid = "''R20''" and ?e2.0 = exampleEnvLater and
      ids = "[''101'', ''102'']"]
  note t2 = cache_read_through [where e = exampleEnv and s = initialServer and i = "''101''" and
      csv = "Some exampleCsv" and sid = "''R20''" and ?e2.0 = exampleEnvExpired and
      ids = "[''101'', ''102'']"]
  note t3 = cache_read_through [where e = exampleEnvLater and s = ?s1 and i = "''101''" and
      csv = "Some exampleCsv" and sid = "''R20''" and ?e2.0 = exampleEnvLater and
      ids = "[''101'', ''102'']"]
  have ups: "stopsApi exampleEnv ''101'' \<noteq> None" "stopsApi exampleEnv ''102'' \<noteq> None"
    by (simp_all add: exampleEnv_def exampleStops_def)
  have near: "now exampleEnvLater - now exampleEnv < ROUTES_CACHE_TTL"
    by (simp add: exampleEnvLater_def exampleEnv_def ROUTES_CACHE_TTL_def)
  have late: "now exampleEnvExpired - now exampleEnv \<ge> ROUTES_CACHE_TTL"
    by (simp add: exampleEnvExpired_def exampleEnv_def ROUTES_CACHE_TTL_def)
  have mem: "''101'' \<in> set [''101'', ''102'']"
    by simp
  have nl: "\<not> routesLive exampleEnv initialServer ''101''"
    by (rule example_routes_not_live)
  have c1: "count_list (upstreamCalls (snd (getRoutesForStation exampleEnvLater ?D ''R20''
      (snd (getRoutesForStation exampleEnv ?D ''R20'' initialServer))))) ''101'' \<le> 1"
    using t1 ups(1) near by (simp add: initialServer_def)
  have c2: "count_list (upstreamCalls (snd (getRoutesForStation exampleEnvExpired ?D ''R20''
      (snd (getRoutesForStation exampleEnv ?D ''R20'' initialServer))))) ''101'' = 2"
    using t2 example_csv_resolve nl late by (simp add: initialServer_def)
  have na: "\<not> arrivalsLive exampleEnv initialServer ''101''"
    by (simp add: arrivalsLive_def initialServer_def)
  have s1: "arrivalsCache ?s1 ''101'' =
      Some \<lparr>data = \<lparr>stationName = ''Union Sq'', arrivals = [exampleEntry1]\<rparr>, timestamp = 1000000\<rparr>"
    using t1 na by (simp add: exampleEnv_sel exampleStops_def example_single_101)
  then have live: "arrivalsLive exampleEnvLater ?s1 ''101''"
    by (simp add: arrivalsLive_def exampleEnvLater_def CACHE_TTL_def)
  have hit: "fetchSingleStationArrivals exampleEnvLater ''101'' ?s1 =
     (\<lparr>stationName = ''Union Sq'', arrivals = [exampleEntry1]\<rparr>, ?s1)"
    using t3 live s1 by simp
  from example_csv_resolve ups near c1 mem nl late c2 na live hit show ?thesis by blast
qed

theorem cache_failure_refetch_counterexample:
  "now exampleEnvDownLater - now exampleEnvDown < ROUTES_CACHE_TTL \<and>
   stationRoutesCache (snd (getRoutesForStation exampleEnvDown (loadStations (Some exampleCsv)) ''R20''
      initialServer)) ''101'' = None \<and>
   count_list (upstreamCalls (snd (getRoutesForStation exampleEnvDownLater (loadStations (Some exampleCsv)) ''R20''
      (snd (getRoutesForStation exampleEnvDown (loadStations (Some exampleCsv)) ''R20'' initialServer))))) ''101'' = 2"
proof -
  let ?D = "loadStations (Some exampleCsv)"
  let ?s1 = "snd (getRoutesForStation exampleEnvDown ?D ''R20'' initialServer)"
  note res = example_csv_resolve
  have dist: "distinct [''101'', ''102'']"
    by simp
  have near: "now exampleEnvDownLater - now exampleEnvDown < ROUTES_CACHE_TTL"
    by (simp add: exampleEnvDownLater_def exampleEnvDown_def ROUTES_CACHE_TTL_def)
  have down: "stopsApi exampleEnvDown ''101'' = None"
    by (simp add: exampleEnvDown_def upstreamDown_def)
  have slot: "stationRoutesCache ?s1 ''101'' = None"
    using routesLive_after_failure [OF example_routes_not_live down]
    by (simp add: getRoutesForStation_slot [OF res dist] initialServer_def)
  then have "\<not> routesLive exampleEnvDownLater ?s1 ''101''"
    by (simp add: routesLive_def)
  then have "count_list (upstreamCalls (snd (getRoutesForStation exampleEnvDownLater ?D ''R20'' ?s1))) ''101'' = 2"
    by (simp add: getRoutesForStation_calls [OF res dist] example_routes_not_live
        initialServer_calls)
  with near slot show ?thesis by simp
qed

section \<open>Upstream failures\<close>

lemma concat_map_filter:
  "(\<And>x. x \<in> set xs \<Longrightarrow> \<not> P x \<Longrightarrow> f x = []) \<Longrightarrow>
   concat (map f xs) = concat (map f (filter P xs))"
  by (induction xs) auto

lemma fetchFails_result:
  "fetchFails e s i \<Longrightarrow>
   fetchSingleStationArrivals e i s =
     (\<lparr>stationName = i, arrivals = []\<rparr>, s\<lparr>upstreamCalls := upstreamCalls s @ [i]\<rparr>)"
  by (simp add: fetchFails_def fetchSingle_miss fetchArrivalsUpstream_def Let_def)

lemma fetchMulti_without_failures:
  assumes "distinct ids"
  shows "arrivals (fst (fetchMultiStationArrivals e ids s)) =
    sort_key arrival_time
      (concat (map (\<lambda>i. arrivals (fst (fetchSingleStationArrivals e i s)))
                   (filter (\<lambda>i. \<not> fetchFails e s i) ids)))"
proof -
  have "concat (map (\<lambda>i. arrivals (fst (fetchSingleStationArrivals e i s))) ids) =
        concat (map (\<lambda>i. arrivals (fst (fetchSingleStationArrivals e i s)))
                    (filter (\<lambda>i. \<not> fetchFails e s i) ids))"
    by (rule concat_map_filter) (simp add: fetchFails_result)
  then show ?thesis
    by (simp add: fetchMulti_arrivals promiseAllMap_arrivals_distinct [OF assms] o_def)
qed

lemma fetchMulti_contains:
  assumes "distinct ids" and "p \<in> set ids"
    and "x \<in> set (arrivals (fst (fetchSingleStationArrivals e p s)))"
  shows "x \<in> set (arrivals (fst (fetchMultiStationArrivals e ids s)))"
  using assms
  by (auto simp add: fetchMulti_arrivals promiseAllMap_arrivals_distinct)

text \<open>
  Claim C8.  An upstream failure is a value of the model, the reply \<open>None\<close>, and no
  function turns it into an error.  A platform fetch that fails returns the empty
  arrivals list with the requested id as the station name, and a failed routes call gives
  the empty status object.  The one error of \<open>getArrivals\<close> is the \<open>TypeError\<close>
  of a station id that resolves to no array: it is decided by the directory alone,
  before any upstream call.  For every station id that resolves to platform ids, whatever
  the upstream replies, \<open>getArrivals\<close> returns a response; it is computed from the
  results of the platforms that did not fail, as if the failed platforms had not been
  asked, and every arrival of every platform appears, with its service status, in the
  list that the response is cut from when no route filter is given.
\<close>

theorem upstream_failures_degrade:
  "(fetchFails e s i \<longrightarrow>
      fst (fetchSingleStationArrivals e i s) = \<lparr>stationName = i, arrivals = []\<rparr>) \<and>
   (routesApi e = None \<longrightarrow> fetchServiceStatus e = Map.empty) \<and>
   (fst (getArrivals e d sid rf mx s) = Inl err \<longrightarrow>
      (\<exists>v. resolveComplex d sid = NotArray v) \<and> snd (getArrivals e d sid rf mx s) = s) \<and>
   (resolveComplex (loadStations csv) sid = IdArray ids \<longrightarrow>
      (\<exists>resp. fst (getArrivals e (loadStations csv) sid rf mx s) = Inr resp \<and>
         r_platformIds resp = ids \<and>
         r_data resp =
           map toView (slice0 (sort_key arrival_time (applyRouteFilter rf
              (map (withStatus (fetchServiceStatus e))
                 (sort_key arrival_time
                    (concat (map (\<lambda>i. arrivals (fst (fetchSingleStationArrivals e i s)))
                       (filter (\<lambda>i. \<not> fetchFails e s i) ids))))))) mx)) \<and>
      (\<forall>p \<in> set ids.
         \<forall>x \<in> set (arrivals (fst (fetchSingleStationArrivals e p s))).
           withStatus (fetchServiceStatus e) x \<in> set (rankedArrivals e ids None s)))"
proof -
  have dist: "distinct ids" if "resolveComplex (loadStations csv) sid = IdArray ids"
    using that by (rule resolve_distinct [OF loadStations_consistent])
  have a: "fetchFails e s i \<longrightarrow>
      fst (fetchSingleStationArrivals e i s) = \<lparr>stationName = i, arrivals = []\<rparr>"
    by (simp add: fetchFails_result)
  have b: "routesApi e = None \<longrightarrow> fetchServiceStatus e = Map.empty"
    by (simp add: fetchServiceStatus_def)
  have t: "fst (getArrivals e d sid rf mx s) = Inl err \<longrightarrow>
      (\<exists>v. resolveComplex d sid = NotArray v) \<and> snd (getArrivals e d sid rf mx s) = s"
    by (cases "resolveComplex d sid") (simp_all add: getArrivals_IdArray getArrivals_NotArray)
  have c: "\<exists>resp. fst (getArrivals e (loadStations csv) sid rf mx s) = Inr resp \<and>
         r_platformIds resp = ids \<and>
         r_data resp =
           map toView (slice0 (sort_key arrival_time (applyRouteFilter rf
              (map (withStatus (fetchServiceStatus e))
                 (sort_key arrival_time
                    (concat (map (\<lambda>i. arrivals (fst (fetchSingleStationArrivals e i s)))
                       (filter (\<lambda>i. \<not> fetchFails e s i) ids))))))) mx)"
    if r: "resolveComplex (loadStations csv) sid = IdArray ids"
    using fetchMulti_without_failures [OF dist [OF r], of e s]
    by (simp add: getArrivals_IdArray [OF r] rankedArrivals_def)
  have d: "withStatus (fetchServiceStatus e) x \<in> set (rankedArrivals e ids None s)"
    if "resolveComplex (loadStations csv) sid = IdArray ids" and "p \<in> set ids"
      and "x \<in> set (arrivals (fst (fetchSingleStationArrivals e p s)))" for p x
    using fetchMulti_contains [OF dist [OF that(1)] that(2,3)]
    by (simp add: rankedArrivals_def applyRouteFilter_def)
  from a b t c d show ?thesis by blast
qed

lemma example_partial_single_101:
  "fst (fetchSingleStationArrivals exampleEnvPartial ''101'' initialServer) =
   \<lparr>stationName = ''Union Sq'', arrivals = [exampleEntry1]\<rparr>"
  by (rule example_single_101) (simp_all add: exampleEnvPartial_def partialStops_def)

theorem upstream_failures_degrade_witness:
  "fetchFails exampleEnvPartial initialServer ''102'' \<and>
   fst (fetchSingleStationArrivals exampleEnvPartial ''102'' initialServer) =
     \<lparr>stationName = ''102'', arrivals = []\<rparr> \<and>
   routesApi exampleEnvPartial = None \<and>
   resolveComplex (loadStations (Some exampleCsv)) ''R20'' = IdArray [''101'', ''102''] \<and>
   exampleEntry1 \<in> set (arrivals (fst (fetchSingleStationArrivals exampleEnvPartial ''101'' initialServer))) \<and>
   map_sum id r_data
     (fst (getArrivals exampleEnvPartial (loadStations (Some exampleCsv)) ''R20'' None 30 initialServer)) =
     Inr [toView exampleEntry1] \<and>
   fst (getArrivals exampleEnvPartial (loadStations (Some exampleCsv)) ''constructor'' None 30 initialServer) =
     Inl TypeError \<and>
   resolveComplex (loadStations (Some exampleCsv)) ''constructor'' = NotArray (Method ''constructor'')"
proof -
  note t = upstream_failures_degrade
     [where e = exampleEnvPartial and s = initialServer and i = "''102''" and csv = "Some exampleCsv" and
        sid = "''R20''" and rf = None and mx = 30 and ids = "[''101'', ''102'']" and
        d = "loadStations (Some exampleCsv)" and err = TypeError]
  have f2: "fetchFails exampleEnvPartial initialServer ''102''"
    by (simp add: fetchFails_def arrivalsLive_def initialServer_def exampleEnvPartial_def
        partialStops_def)
  have f1: "\<not> fetchFails exampleEnvPartial initialServer ''101''"
    by (simp add: fetchFails_def arrivalsLive_def initialServer_def exampleEnvPartial_def
        partialStops_def exampleStops_def)
  have r: "routesApi exampleEnvPartial = None"
    by (simp add: exampleEnvPartial_def)
  have st: "fetchServiceStatus exampleEnvPartial = Map.empty"
    using t r by blast
  have s2: "fst (fetchSingleStationArrivals exampleEnvPartial ''102'' initialServer) =
     \<lparr>stationName = ''102'', arrivals = []\<rparr>"
    using t f2 by blast
  have x: "exampleEntry1 \<in> set (arrivals (fst (fetchSingleStationArrivals exampleEnvPartial ''101'' initialServer)))"
    by (simp add: example_partial_single_101)
  from t example_csv_resolve
  have "\<exists>resp. fst (getArrivals exampleEnvPartial (loadStations (Some exampleCsv)) ''R20'' None 30 initialServer) = Inr resp \<and>
         r_platformIds resp = [''101'', ''102''] \<and>
         r_data resp =
           map toView (slice0 (sort_key arrival_time (applyRouteFilter None
              (map (withStatus (fetchServiceStatus exampleEnvPartial))
                 (sort_key arrival_time
                    (concat (map (\<lambda>i. arrivals (fst (fetchSingleStationArrivals exampleEnvPartial i initialServer)))
                       (filter (\<lambda>i. \<not> fetchFails exampleEnvPartial initialServer i) [''101'', ''102'']))))))) 30)"
    by blast
  then have dat: "map_sum id r_data
     (fst (getArrivals exampleEnvPartial (loadStations (Some exampleCsv)) ''R20'' None 30 initialServer)) =
     Inr [toView exampleEntry1]"
    using f1 f2
    by (auto simp add: example_partial_single_101 st withStatus_def inherited_defs
        applyRouteFilter_def slice0_def exampleEntry1_def)
  have na: "resolveComplex (loadStations (Some exampleCsv)) ''constructor'' = NotArray (Method ''constructor'')"
    by (simp add: example_csv_loaded resolveComplex_def inherited_defs lengthIsZero_def)
  then have thr: "fst (getArrivals exampleEnvPartial (loadStations (Some exampleCsv)) ''constructor'' None 30 initialServer) =
     Inl TypeError"
    by (simp add: getArrivals_NotArray)
  from f2 s2 r example_csv_resolve x dat thr na show ?thesis by blast
qed

section \<open>Requests do not change what the cache refers to\<close>

subsection \<open>Every write goes to a cell allocated by the same request\<close>

lemma keeps_refl: "keeps n h h"
  by (simp add: keeps_def)

lemma keeps_trans: "keeps n h h1 \<Longrightarrow> keeps n h1 h2 \<Longrightarrow> keeps n h h2"
  by (simp add: keeps_def)

lemma keeps_limit: "keeps n h h' \<Longrightarrow> n \<le> limit h \<Longrightarrow> n \<le> limit h'"
  by (simp add: keeps_def)

lemma keeps_allocArray: "n \<le> limit h \<Longrightarrow> keeps n h (snd (allocArray xs h))"
  by (simp add: keeps_def allocArray_def)

lemma keeps_allocEntry: "n \<le> limit h \<Longrightarrow> keeps n h (snd (allocEntry v h))"
  by (simp add: keeps_def allocEntry_def)

lemma keeps_push: "n \<le> a \<Longrightarrow> keeps n h (push a r h)"
  by (simp add: keeps_def push_def)

lemma keeps_sortInPlace: "n \<le> a \<Longrightarrow> keeps n h (sortInPlace a h)"
  by (simp add: keeps_def sortInPlace_def)

lemma keeps_collectArrivalsH:
  "n \<le> a \<Longrightarrow> n \<le> limit h \<Longrightarrow> keeps n h (collectArrivalsH nowMs name a sts h)"
proof (induction sts arbitrary: h)
  case Nil
  show ?case by (simp add: keeps_refl)
next
  case (Cons st sts)
  show ?case
  proof (cases "stopTimeEntry nowMs name st")
    case None
    with Cons show ?thesis by simp
  next
    case (Some entry)
    let ?h1 = "snd (allocEntry entry h)"
    let ?h2 = "push a (fst (allocEntry entry h)) ?h1"
    have k1: "keeps n h ?h1" using Cons.prems by (simp add: keeps_allocEntry)
    have k2: "keeps n ?h1 ?h2" using Cons.prems by (simp add: keeps_push)
    have k12: "keeps n h ?h2" using k1 k2 by (rule keeps_trans)
    then have "n \<le> limit ?h2" using Cons.prems by (simp add: keeps_limit)
    with Cons have "keeps n ?h2 (collectArrivalsH nowMs name a sts ?h2)" by simp
    with k12 have "keeps n h (collectArrivalsH nowMs name a sts ?h2)" by (rule keeps_trans)
    with Some show ?thesis by (simp add: split_beta)
  qed
qed

lemma keeps_fetchArrivalsUpstreamH:
  assumes "n \<le> limit (cells hs)"
  shows "keeps n (cells hs) (cells (snd (fetchArrivalsUpstreamH e i hs)))"
proof (cases "stopsApi e i")
  case None
  with assms show ?thesis
    by (simp add: fetchArrivalsUpstreamH_def split_beta keeps_allocArray)
next
  case (Some sd)
  let ?a = "fst (allocArray [] (cells hs))"
  let ?h1 = "snd (allocArray [] (cells hs))"
  let ?h2 = "collectArrivalsH (now e) (js_or (stop_name sd) i) ?a
               (case stopTimes sd of None \<Rightarrow> [] | Some sts \<Rightarrow> sts) ?h1"
  have a: "n \<le> ?a" using assms by (simp add: allocArray_def)
  have k1: "keeps n (cells hs) ?h1" using assms by (rule keeps_allocArray)
  then have "n \<le> limit ?h1" using assms by (rule keeps_limit)
  with a have k2: "keeps n ?h1 ?h2" by (rule keeps_collectArrivalsH)
  have k3: "keeps n ?h2 (sortInPlace ?a ?h2)" using a by (rule keeps_sortInPlace)
  from k1 k2 k3 have "keeps n (cells hs) (sortInPlace ?a ?h2)"
    by (blast intro: keeps_trans)
  with Some show ?thesis
    by (simp add: fetchArrivalsUpstreamH_def split_beta Let_def)
qed

lemma keeps_fetchSingleH:
  "n \<le> limit (cells hs) \<Longrightarrow> keeps n (cells hs) (cells (snd (fetchSingleStationArrivalsH e i hs)))"
  by (simp add: fetchSingleStationArrivalsH_def keeps_fetchArrivalsUpstreamH keeps_refl
      split: option.splits)

lemma keeps_promiseAllMapH:
  assumes "n \<le> limit (cells hs)"
  shows "keeps n (cells hs) (cells (snd (promiseAllMap (fetchSingleStationArrivalsH e) ids hs)))"
proof -
  have "keeps n (cells hs) (cells t) \<Longrightarrow>
        keeps n (cells hs) (cells (snd (fetchSingleStationArrivalsH e i t)))" for i t
    using assms keeps_fetchSingleH [of n t e i] keeps_limit [of n "cells hs" "cells t"]
    by (blast intro: keeps_trans)
  then show ?thesis
    using promiseAllMap_invariant
      [of "\<lambda>t. keeps n (cells hs) (cells t)" "fetchSingleStationArrivalsH e" hs ids]
    by (simp add: keeps_refl)
qed

lemma keeps_mergeResultsH:
  "n \<le> limit h \<Longrightarrow> n \<le> a \<Longrightarrow>
   keeps n h (snd (snd (mergeResultsH rs name a h))) \<and> n \<le> fst (snd (mergeResultsH rs name a h))"
proof (induction rs arbitrary: name a h)
  case Nil
  then show ?case by (simp add: keeps_refl)
next
  case (Cons r rs)
  let ?xs = "arrayCells h a @ arrayCells h (ref_arrivals r)"
  let ?h1 = "snd (allocArray ?xs h)"
  let ?a1 = "fst (allocArray ?xs h)"
  let ?name = "if name = [] \<and> ref_stationName r \<noteq> [] then ref_stationName r else name"
  have k1: "keeps n h ?h1" using Cons.prems by (simp add: keeps_allocArray)
  then have l1: "n \<le> limit ?h1" using Cons.prems by (simp add: keeps_limit)
  have a1: "n \<le> ?a1" using Cons.prems by (simp add: allocArray_def)
  from Cons.IH [OF l1 a1, of ?name]
  have "keeps n ?h1 (snd (snd (mergeResultsH rs ?name ?a1 ?h1)))"
    and "n \<le> fst (snd (mergeResultsH rs ?name ?a1 ?h1))" by simp_all
  with k1 show ?case
    by (auto simp add: split_beta intro: keeps_trans)
qed

lemma fetchMultiH_tail:
  "fetchMultiStationArrivalsH e ids hs =
     (let p = promiseAllMap (fetchSingleStationArrivalsH e) ids hs;
          t = mergeTailH (fst p) (cells (snd p))
      in (\<lparr>ref_stationName = fst t, ref_arrivals = fst (snd t)\<rparr>,
          (snd p)\<lparr>cells := snd (snd t)\<rparr>))"
  by (simp add: fetchMultiStationArrivalsH_def mergeTailH_def split_beta Let_def)

lemma keeps_mergeTailH:
  assumes "n \<le> limit h"
  shows "keeps n h (snd (snd (mergeTailH rs h)))"
proof -
  define h0 where "h0 = snd (allocArray [] h)"
  define a0 where "a0 = fst (allocArray [] h)"
  define m where "m = mergeResultsH rs [] a0 h0"
  have k1: "keeps n h h0" unfolding h0_def using assms by (rule keeps_allocArray)
  then have l1: "n \<le> limit h0" using assms by (rule keeps_limit)
  have a0: "n \<le> a0" using assms by (simp add: a0_def allocArray_def)
  from keeps_mergeResultsH [OF l1 a0, of rs "[]"]
  have k2: "keeps n h0 (snd (snd m))" and a: "n \<le> fst (snd m)" by (simp_all add: m_def)
  have k3: "keeps n (snd (snd m)) (sortInPlace (fst (snd m)) (snd (snd m)))"
    using a by (rule keeps_sortInPlace)
  have "snd (snd (mergeTailH rs h)) = sortInPlace (fst (snd m)) (snd (snd m))"
    by (simp add: mergeTailH_def split_beta m_def a0_def h0_def)
  with k1 k2 k3 show ?thesis
    by (simp only:) (blast intro: keeps_trans)
qed

lemma keeps_fetchMultiH:
  assumes "n \<le> limit (cells hs)"
  shows "keeps n (cells hs) (cells (snd (fetchMultiStationArrivalsH e ids hs)))"
proof -
  define p where "p = promiseAllMap (fetchSingleStationArrivalsH e) ids hs"
  have k0: "keeps n (cells hs) (cells (snd p))"
    unfolding p_def using assms by (rule keeps_promiseAllMapH)
  then have "n \<le> limit (cells (snd p))" using assms by (rule keeps_limit)
  then have "keeps n (cells (snd p)) (snd (snd (mergeTailH (fst p) (cells (snd p)))))"
    by (rule keeps_mergeTailH)
  with k0 have "keeps n (cells hs) (snd (snd (mergeTailH (fst p) (cells (snd p)))))"
    by (rule keeps_trans)
  then show ?thesis
    by (simp add: fetchMultiH_tail Let_def p_def)
qed

lemma keeps_mapWithStatusH:
  "n \<le> limit h \<Longrightarrow> keeps n h (snd (mapWithStatusH st rs h))"
proof (induction rs arbitrary: h)
  case Nil
  show ?case by (simp add: keeps_refl)
next
  case (Cons r rs)
  let ?h1 = "snd (allocEntry (withStatus st (entryCells h r)) h)"
  have k1: "keeps n h ?h1" using Cons.prems by (rule keeps_allocEntry)
  then have "n \<le> limit ?h1" using Cons.prems by (rule keeps_limit)
  then have "keeps n ?h1 (snd (mapWithStatusH st rs ?h1))" by (rule Cons.IH)
  with k1 show ?case
    by (auto simp add: split_beta intro: keeps_trans)
qed

lemma keeps_applyRouteFilterH:
  "n \<le> limit h \<Longrightarrow> n \<le> a \<Longrightarrow>
   keeps n h (snd (applyRouteFilterH rf a h)) \<and> n \<le> fst (applyRouteFilterH rf a h)"
  by (auto simp add: applyRouteFilterH_def keeps_refl keeps_allocArray split: option.splits)
     (simp add: allocArray_def)

lemma getArrivalsH_tail:
  "resolveComplex d sid = IdArray ids \<Longrightarrow>
   getArrivalsH e d sid rf mx hs =
     (let f = fetchMultiStationArrivalsH e ids hs;
          t = respondTailH (fetchServiceStatus e) rf mx (ref_arrivals (fst f)) (cells (snd f))
      in (Inr \<lparr>r_stationName = ref_stationName (fst f), r_platformIds = ids,
               r_data = fst t\<rparr>,
          (snd f)\<lparr>cells := snd t\<rparr>))"
  by (simp add: getArrivalsH_def respondTailH_def split_beta Let_def)

lemma getArrivalsH_NotArray:
  "resolveComplex d sid = NotArray v \<Longrightarrow> getArrivalsH e d sid rf mx hs = (Inl TypeError, hs)"
  by (simp add: getArrivalsH_def)

lemma keeps_respondTailH:
  assumes "n \<le> limit h"
  shows "keeps n h (snd (respondTailH st rf mx a h))"
proof -
  define m where "m = mapWithStatusH st (arrayCells h a) h"
  define A1 where "A1 = allocArray (fst m) (snd m)"
  define F where "F = applyRouteFilterH rf (fst A1) (snd A1)"
  define h4 where "h4 = sortInPlace (fst F) (snd F)"
  define A3 where "A3 = allocArray (slice0 (arrayCells h4 (fst F)) mx) h4"
  have k1: "keeps n h (snd m)" unfolding m_def using assms by (rule keeps_mapWithStatusH)
  then have l1: "n \<le> limit (snd m)" using assms by (rule keeps_limit)
  then have k2: "keeps n (snd m) (snd A1)" unfolding A1_def by (rule keeps_allocArray)
  then have l2: "n \<le> limit (snd A1)" using l1 by (rule keeps_limit)
  have a1: "n \<le> fst A1" using l1 by (simp add: A1_def allocArray_def)
  from keeps_applyRouteFilterH [OF l2 a1, of rf]
  have k3: "keeps n (snd A1) (snd F)" and a2: "n \<le> fst F" by (simp_all add: F_def)
  from k3 l2 have l3: "n \<le> limit (snd F)" by (rule keeps_limit)
  have k4: "keeps n (snd F) h4" unfolding h4_def using a2 by (rule keeps_sortInPlace)
  then have l4: "n \<le> limit h4" using l3 by (rule keeps_limit)
  then have k5: "keeps n h4 (snd A3)" unfolding A3_def by (rule keeps_allocArray)
  have "snd (respondTailH st rf mx a h) = snd A3"
    by (simp add: respondTailH_def split_beta Let_def A3_def h4_def F_def A1_def m_def)
  with k1 k2 k3 k4 k5 show ?thesis
    by (simp only:) (blast intro: keeps_trans)
qed

lemma getArrivalsH_cache:
  "refCache (snd (getArrivalsH e d sid rf mx hs)) =
     (case resolveComplex d sid of
        IdArray ids \<Rightarrow> refCache (snd (promiseAllMap (fetchSingleStationArrivalsH e) ids hs))
      | NotArray v \<Rightarrow> refCache hs)"
  by (simp add: getArrivalsH_tail getArrivalsH_NotArray fetchMultiH_tail Let_def
      split: platformIds.splits)

lemma keeps_getArrivalsH:
  assumes "n \<le> limit (cells hs)"
  shows "keeps n (cells hs) (cells (snd (getArrivalsH e d sid rf mx hs)))"
proof (cases "resolveComplex d sid")
  case (NotArray v)
  then show ?thesis by (simp add: getArrivalsH_NotArray keeps_refl)
next
  case (IdArray ids)
  define f where "f = fetchMultiStationArrivalsH e ids hs"
  have k0: "keeps n (cells hs) (cells (snd f))"
    unfolding f_def using assms by (rule keeps_fetchMultiH)
  then have "n \<le> limit (cells (snd f))" using assms by (rule keeps_limit)
  then have "keeps n (cells (snd f))
     (snd (respondTailH (fetchServiceStatus e) rf mx (ref_arrivals (fst f)) (cells (snd f))))"
    by (rule keeps_respondTailH)
  with k0 have "keeps n (cells hs)
     (snd (respondTailH (fetchServiceStatus e) rf mx (ref_arrivals (fst f)) (cells (snd f))))"
    by (rule keeps_trans)
  then show ?thesis
    by (simp add: getArrivalsH_tail [OF IdArray] Let_def f_def)
qed

subsection \<open>Live cache entries stay, and the cache refers to allocated cells only\<close>

lemma fetchArrivalsUpstreamH_other:
  "k \<noteq> i \<Longrightarrow> refCache (snd (fetchArrivalsUpstreamH e i hs)) k = refCache hs k"
  by (simp add: fetchArrivalsUpstreamH_def split_beta Let_def split: option.splits)

lemma fetchSingleH_live_slot:
  "arrivalsLiveH e hs k \<Longrightarrow> refCache (snd (fetchSingleStationArrivalsH e i hs)) k = refCache hs k"
  by (cases "k = i")
     (auto simp add: fetchSingleStationArrivalsH_def arrivalsLiveH_def fetchArrivalsUpstreamH_other
        split: option.splits)

lemma promiseAllMapH_live_slot:
  assumes "arrivalsLiveH e hs k"
  shows "refCache (snd (promiseAllMap (fetchSingleStationArrivalsH e) ids hs)) k = refCache hs k"
proof -
  have "refCache t k = refCache hs k \<Longrightarrow>
        refCache (snd (fetchSingleStationArrivalsH e i t)) k = refCache hs k" for i t
  proof -
    assume t: "refCache t k = refCache hs k"
    with assms have "arrivalsLiveH e t k" by (simp add: arrivalsLiveH_def)
    then show ?thesis using t by (simp add: fetchSingleH_live_slot)
  qed
  then show ?thesis
    using promiseAllMap_invariant
      [of "\<lambda>t. refCache t k = refCache hs k" "fetchSingleStationArrivalsH e" hs ids]
    by simp
qed

lemma collectArrivalsH_allocated:
  "a < limit h \<Longrightarrow> \<forall>r \<in> set (arrayCells h a). r < limit h \<Longrightarrow>
   \<forall>r \<in> set (arrayCells (collectArrivalsH nowMs name a sts h) a).
      r < limit (collectArrivalsH nowMs name a sts h)"
proof (induction sts arbitrary: h)
  case Nil
  then show ?case by simp
next
  case (Cons st sts)
  show ?case
  proof (cases "stopTimeEntry nowMs name st")
    case None
    with Cons show ?thesis by simp
  next
    case (Some entry)
    let ?h2 = "push a (fst (allocEntry entry h)) (snd (allocEntry entry h))"
    have "a < limit ?h2" using Cons.prems by (simp add: push_def allocEntry_def)
    moreover have "\<forall>r \<in> set (arrayCells ?h2 a). r < limit ?h2"
      using Cons.prems by (auto simp add: push_def allocEntry_def)
    ultimately have "\<forall>r \<in> set (arrayCells (collectArrivalsH nowMs name a sts ?h2) a).
      r < limit (collectArrivalsH nowMs name a sts ?h2)"
      by (rule Cons.IH)
    with Some show ?thesis by (simp add: split_beta)
  qed
qed

lemma cacheAllocated_keeps:
  assumes "cacheAllocated hs" and "keeps (limit (cells hs)) (cells hs) h'"
  shows "cacheAllocated (hs\<lparr>cells := h'\<rparr>)"
  using assms unfolding cacheAllocated_def keeps_def
  by (auto simp add: less_le_trans) (metis less_le_trans)+

lemma limit_sortInPlace: "limit (sortInPlace a h) = limit h"
  by (simp add: sortInPlace_def)

lemma set_sortInPlace: "set (arrayCells (sortInPlace a h) a) = set (arrayCells h a)"
  by (simp add: sortInPlace_def)

lemma fetchArrivalsUpstreamH_success:
  assumes "stopsApi e i = Some sd"
  shows "snd (fetchArrivalsUpstreamH e i hs) =
      \<lparr>refCache = (refCache hs)(i \<mapsto>
          \<lparr>data = \<lparr>ref_stationName = js_or (stop_name sd) i, ref_arrivals = limit (cells hs)\<rparr>,
           timestamp = now e\<rparr>),
       cells = sortInPlace (limit (cells hs))
                (collectArrivalsH (now e) (js_or (stop_name sd) i) (limit (cells hs))
                   (case stopTimes sd of None \<Rightarrow> [] | Some sts \<Rightarrow> sts)
                   (snd (allocArray [] (cells hs))))\<rparr>"
  using assms by (simp add: fetchArrivalsUpstreamH_def split_beta Let_def allocArray_def)

lemma fetchArrivalsUpstreamH_allocated:
  assumes "cacheAllocated hs"
  shows "cacheAllocated (snd (fetchArrivalsUpstreamH e i hs))"
proof (cases "stopsApi e i")
  case None
  have "keeps (limit (cells hs)) (cells hs) (snd (allocArray [] (cells hs)))"
    by (simp add: keeps_allocArray)
  with assms have "cacheAllocated (hs\<lparr>cells := snd (allocArray [] (cells hs))\<rparr>)"
    by (rule cacheAllocated_keeps)
  with None show ?thesis
    by (simp add: fetchArrivalsUpstreamH_def split_beta)
next
  case (Some sd)
  define a where "a = limit (cells hs)"
  define h1 where "h1 = snd (allocArray [] (cells hs))"
  define h2 where "h2 = collectArrivalsH (now e) (js_or (stop_name sd) i) a
               (case stopTimes sd of None \<Rightarrow> [] | Some sts \<Rightarrow> sts) h1"
  define h3 where "h3 = sortInPlace a h2"
  define entry where "entry = \<lparr>data = \<lparr>ref_stationName = js_or (stop_name sd) i, ref_arrivals = a\<rparr>,
           timestamp = now e\<rparr>"
  have eq: "snd (fetchArrivalsUpstreamH e i hs) = \<lparr>refCache = (refCache hs)(i \<mapsto> entry), cells = h3\<rparr>"
    unfolding entry_def h3_def h2_def h1_def a_def
    by (rule fetchArrivalsUpstreamH_success [OF Some])
  have k: "keeps a (cells hs) h3"
    using keeps_fetchArrivalsUpstreamH [of a hs e i] by (simp add: eq a_def)
  have l1: "limit h1 = Suc a" and e1: "arrayCells h1 a = []"
    by (simp_all add: h1_def a_def allocArray_def)
  have k2: "keeps a h1 h2"
    unfolding h2_def by (rule keeps_collectArrivalsH) (simp_all add: l1)
  have l3: "a < limit h3"
    using k2 l1 by (simp add: h3_def limit_sortInPlace keeps_def)
  have "\<forall>r \<in> set (arrayCells h2 a). r < limit h2"
    unfolding h2_def by (rule collectArrivalsH_allocated) (simp_all add: l1 e1)
  then have new: "\<forall>r \<in> set (arrayCells h3 a). r < limit h3"
    by (simp add: h3_def limit_sortInPlace set_sortInPlace)
  have old: "cacheAllocated (hs\<lparr>cells := h3\<rparr>)"
    using assms k unfolding a_def by (rule cacheAllocated_keeps)
  have "ref_arrivals (data c) < limit h3 \<and>
        (\<forall>r \<in> set (arrayCells h3 (ref_arrivals (data c))). r < limit h3)"
    if "((refCache hs)(i \<mapsto> entry)) k = Some c" for k c
  proof (cases "k = i")
    case True
    with that have "c = entry" by simp
    with l3 new show ?thesis by (simp add: entry_def)
  next
    case False
    with that have "refCache hs k = Some c" by simp
    with old show ?thesis by (simp add: cacheAllocated_def)
  qed
  then show ?thesis
    unfolding eq cacheAllocated_def by simp
qed

lemma fetchSingleH_allocated:
  "cacheAllocated hs \<Longrightarrow> cacheAllocated (snd (fetchSingleStationArrivalsH e i hs))"
  by (simp add: fetchSingleStationArrivalsH_def fetchArrivalsUpstreamH_allocated split: option.splits)

lemma getArrivalsH_allocated:
  assumes "cacheAllocated hs"
  shows "cacheAllocated (snd (getArrivalsH e d sid rf mx hs))"
proof (cases "resolveComplex d sid")
  case (NotArray v)
  with assms show ?thesis by (simp add: getArrivalsH_NotArray)
next
  case (IdArray ids)
  define p where "p = promiseAllMap (fetchSingleStationArrivalsH e) ids hs"
  define t where "t = mergeTailH (fst p) (cells (snd p))"
  define u where "u = respondTailH (fetchServiceStatus e) rf mx (fst (snd t)) (snd (snd t))"
  have shape: "snd (getArrivalsH e d sid rf mx hs) = (snd p)\<lparr>cells := snd u\<rparr>"
    by (simp add: getArrivalsH_tail [OF IdArray] fetchMultiH_tail Let_def u_def t_def p_def)
  have p: "cacheAllocated (snd p)"
    unfolding p_def
    using promiseAllMap_invariant [of cacheAllocated "fetchSingleStationArrivalsH e" hs] assms
    by (simp add: fetchSingleH_allocated)
  have k1: "keeps (limit (cells (snd p))) (cells (snd p)) (snd (snd t))"
    unfolding t_def by (rule keeps_mergeTailH) simp
  then have "limit (cells (snd p)) \<le> limit (snd (snd t))" by (simp add: keeps_def)
  then have "keeps (limit (cells (snd p))) (snd (snd t)) (snd u)"
    unfolding u_def by (rule keeps_respondTailH)
  with k1 have "keeps (limit (cells (snd p))) (cells (snd p)) (snd u)"
    by (rule keeps_trans)
  with p have "cacheAllocated ((snd p)\<lparr>cells := snd u\<rparr>)"
    by (rule cacheAllocated_keeps)
  with shape show ?thesis by simp
qed

lemma getArrivalsH_live_slot:
  "arrivalsLiveH e hs k \<Longrightarrow> refCache (snd (getArrivalsH e d sid rf mx hs)) k = refCache hs k"
  by (simp add: getArrivalsH_cache promiseAllMapH_live_slot split: platformIds.splits)

lemma readEntries_keeps:
  assumes "keeps n h h'" and "a < n" and "\<forall>r \<in> set (arrayCells h a). r < n"
  shows "arrayCells h' a = arrayCells h a \<and> readEntries h' a = readEntries h a"
proof -
  from assms(1,2) have arr: "arrayCells h' a = arrayCells h a"
    by (simp add: keeps_def)
  have "map (entryCells h') (arrayCells h a) = map (entryCells h) (arrayCells h a)"
    using assms(1,3) by (intro map_cong) (simp_all add: keeps_def)
  with arr show ?thesis by (simp add: readEntries_def)
qed

lemma cacheAllocated_initial: "cacheAllocated initialHeapServer"
  by (simp add: cacheAllocated_def initialHeapServer_def)

lemma serve_keeps_entry:
  assumes wf: "cacheAllocated hs" and c: "refCache hs k = Some c"
    and live: "now (req_env q) - timestamp c < CACHE_TTL"
  shows "cacheAllocated (serve d q hs) \<and> refCache (serve d q hs) k = Some c \<and>
         arrayCells (cells (serve d q hs)) (ref_arrivals (data c)) =
           arrayCells (cells hs) (ref_arrivals (data c)) \<and>
         readEntries (cells (serve d q hs)) (ref_arrivals (data c)) =
           readEntries (cells hs) (ref_arrivals (data c))"
proof -
  from c live have "arrivalsLiveH (req_env q) hs k"
    by (simp add: arrivalsLiveH_def)
  then have slot: "refCache (serve d q hs) k = Some c"
    using c by (simp add: serve_def getArrivalsH_live_slot)
  have k: "keeps (limit (cells hs)) (cells hs) (cells (serve d q hs))"
    unfolding serve_def by (rule keeps_getArrivalsH) simp
  from wf c have "ref_arrivals (data c) < limit (cells hs)"
    and "\<forall>r \<in> set (arrayCells (cells hs) (ref_arrivals (data c))). r < limit (cells hs)"
    by (simp_all add: cacheAllocated_def)
  with k have "arrayCells (cells (serve d q hs)) (ref_arrivals (data c)) =
           arrayCells (cells hs) (ref_arrivals (data c)) \<and>
         readEntries (cells (serve d q hs)) (ref_arrivals (data c)) =
           readEntries (cells hs) (ref_arrivals (data c))"
    by (rule readEntries_keeps)
  moreover have "cacheAllocated (serve d q hs)"
    unfolding serve_def using wf by (rule getArrivalsH_allocated)
  ultimately show ?thesis using slot by simp
qed

lemma serveAll_keeps_entry:
  "cacheAllocated hs \<Longrightarrow> refCache hs k = Some c \<Longrightarrow>
   \<forall>q \<in> set qs. now (req_env q) - timestamp c < CACHE_TTL \<Longrightarrow>
   cacheAllocated (serveAll d qs hs) \<and> refCache (serveAll d qs hs) k = Some c \<and>
   arrayCells (cells (serveAll d qs hs)) (ref_arrivals (data c)) =
     arrayCells (cells hs) (ref_arrivals (data c)) \<and>
   readEntries (cells (serveAll d qs hs)) (ref_arrivals (data c)) =
     readEntries (cells hs) (ref_arrivals (data c))"
proof (induction qs arbitrary: hs)
  case Nil
  then show ?case by (simp add: serveAll_def)
next
  case (Cons q qs)
  from Cons.prems have live: "now (req_env q) - timestamp c < CACHE_TTL" by simp
  note step = serve_keeps_entry [OF Cons.prems(1,2) live, of d]
  from Cons.prems(3) have rest: "\<forall>q \<in> set qs. now (req_env q) - timestamp c < CACHE_TTL" by simp
  from step have "cacheAllocated (serve d q hs)" and "refCache (serve d q hs) k = Some c"
    by simp_all
  from Cons.IH [OF this rest] step show ?case
    by (simp add: serveAll_def)
qed

subsection \<open>The heap pipeline computes what the value pipeline computes\<close>

lemma map_insort_key:
  "map f (insort_key (\<lambda>x. g (f x)) x xs) = insort_key g (f x) (map f xs)"
  by (induction xs) simp_all

lemma map_sort_key:
  "map f (sort_key (\<lambda>x. g (f x)) xs) = sort_key g (map f xs)"
  by (induction xs) (simp_all add: map_insort_key)

lemma readEntries_sortInPlace:
  "readEntries (sortInPlace a h) a = sort_key arrival_time (readEntries h a)"
  by (simp add: readEntries_def sortInPlace_def map_sort_key)

lemma entryCells_sortInPlace: "entryCells (sortInPlace a h) = entryCells h"
  by (simp add: sortInPlace_def)

lemma resultAllocated_keeps:
  assumes "resultAllocated h r" and "keeps (limit h) h h'"
  shows "resultAllocated h' r \<and> absResult h' r = absResult h r"
proof -
  from assms(1) have a: "ref_arrivals r < limit h"
    and el: "\<forall>x \<in> set (arrayCells h (ref_arrivals r)). x < limit h"
    by (simp_all add: resultAllocated_def)
  from readEntries_keeps [OF assms(2) a el]
  have arr: "arrayCells h' (ref_arrivals r) = arrayCells h (ref_arrivals r)"
    and rd: "readEntries h' (ref_arrivals r) = readEntries h (ref_arrivals r)" by simp_all
  from assms(2) have "limit h \<le> limit h'" by (simp add: keeps_def)
  with a el arr have "resultAllocated h' r"
    by (auto simp add: resultAllocated_def)
  with rd show ?thesis by (simp add: absResult_def)
qed

lemma absCache_keeps:
  assumes "cacheAllocated hs" and "keeps (limit (cells hs)) (cells hs) h'"
  shows "absCache (hs\<lparr>cells := h'\<rparr>) = absCache hs"
proof
  fix k
  show "absCache (hs\<lparr>cells := h'\<rparr>) k = absCache hs k"
  proof (cases "refCache hs k")
    case None
    then show ?thesis by (simp add: absCache_def)
  next
    case (Some c)
    with assms(1) have "resultAllocated (cells hs) (data c)"
      by (simp add: cacheAllocated_def resultAllocated_def)
    then have "absResult h' (data c) = absResult (cells hs) (data c)"
      using assms(2) by (simp add: resultAllocated_keeps)
    with Some show ?thesis by (simp add: absCache_def)
  qed
qed

lemma collectArrivalsH_read:
  "a < limit h \<Longrightarrow> \<forall>r \<in> set (arrayCells h a). r < limit h \<Longrightarrow>
   readEntries (collectArrivalsH nowMs name a sts h) a =
     readEntries h a @ collectArrivals nowMs name sts"
proof (induction sts arbitrary: h)
  case Nil
  then show ?case by simp
next
  case (Cons st sts)
  show ?case
  proof (cases "stopTimeEntry nowMs name st")
    case None
    with Cons show ?thesis by simp
  next
    case (Some entry)
    define h2 where "h2 = push a (fst (allocEntry entry h)) (snd (allocEntry entry h))"
    have l: "a < limit h2" using Cons.prems by (simp add: h2_def push_def allocEntry_def)
    have el: "\<forall>r \<in> set (arrayCells h2 a). r < limit h2"
      using Cons.prems by (auto simp add: h2_def push_def allocEntry_def)
    have rd: "readEntries h2 a = readEntries h a @ [entry]"
      using Cons.prems by (auto simp add: h2_def readEntries_def push_def allocEntry_def)
    have "readEntries (collectArrivalsH nowMs name a sts h2) a =
          readEntries h2 a @ collectArrivals nowMs name sts"
      using l el by (rule Cons.IH)
    with Some rd show ?thesis by (simp add: split_beta h2_def)
  qed
qed

lemma fetchArrivalsUpstream_success:
  "stopsApi e i = Some sd \<Longrightarrow>
   fst (fetchArrivalsUpstream e i s) =
     \<lparr>stationName = js_or (stop_name sd) i,
      arrivals = sort_key arrival_time
        (collectArrivals (now e) (js_or (stop_name sd) i)
           (case stopTimes sd of None \<Rightarrow> [] | Some sts \<Rightarrow> sts))\<rparr>"
  by (simp add: fetchArrivalsUpstream_def Let_def)

lemma fetchArrivalsUpstreamH_result:
  "fst (fetchArrivalsUpstreamH e i hs) =
     \<lparr>ref_stationName = (case stopsApi e i of None \<Rightarrow> i | Some sd \<Rightarrow> js_or (stop_name sd) i),
      ref_arrivals = limit (cells hs)\<rparr>"
  by (simp add: fetchArrivalsUpstreamH_def split_beta Let_def allocArray_def split: option.splits)

lemma fetchArrivalsUpstreamH_refines:
  assumes wf: "cacheAllocated hs"
  shows "absResult (cells (snd (fetchArrivalsUpstreamH e i hs))) (fst (fetchArrivalsUpstreamH e i hs)) =
           fst (fetchArrivalsUpstream e i s) \<and>
         absCache (snd (fetchArrivalsUpstreamH e i hs)) =
           (case stopsApi e i of
              None \<Rightarrow> absCache hs
            | Some sd \<Rightarrow> (absCache hs)(i \<mapsto> \<lparr>data = fst (fetchArrivalsUpstream e i s), timestamp = now e\<rparr>)) \<and>
         resultAllocated (cells (snd (fetchArrivalsUpstreamH e i hs))) (fst (fetchArrivalsUpstreamH e i hs))"
proof (cases "stopsApi e i")
  case None
  define h1 where "h1 = snd (allocArray [] (cells hs))"
  have s: "snd (fetchArrivalsUpstreamH e i hs) = hs\<lparr>cells := h1\<rparr>"
    using None by (simp add: fetchArrivalsUpstreamH_def split_beta h1_def)
  have k: "keeps (limit (cells hs)) (cells hs) h1"
    unfolding h1_def by (simp add: keeps_allocArray)
  have c: "absCache (hs\<lparr>cells := h1\<rparr>) = absCache hs"
    using wf k by (rule absCache_keeps)
  have r: "readEntries h1 (limit (cells hs)) = []" "limit h1 = Suc (limit (cells hs))"
    "arrayCells h1 (limit (cells hs)) = []"
    by (simp_all add: h1_def readEntries_def allocArray_def)
  from None s c r show ?thesis
    by (simp add: fetchArrivalsUpstreamH_result absResult_def resultAllocated_def
        fetchArrivalsUpstream_failure)
next
  case (Some sd)
  define a where "a = limit (cells hs)"
  define name where "name = js_or (stop_name sd) i"
  define sts where "sts = (case stopTimes sd of None \<Rightarrow> [] | Some sts \<Rightarrow> sts)"
  define h1 where "h1 = snd (allocArray [] (cells hs))"
  define h2 where "h2 = collectArrivalsH (now e) name a sts h1"
  define h3 where "h3 = sortInPlace a h2"
  define res where "res = \<lparr>ref_stationName = name, ref_arrivals = a\<rparr>"
  define pure where "pure = \<lparr>stationName = name,
      arrivals = sort_key arrival_time (collectArrivals (now e) name sts)\<rparr>"
  have s: "snd (fetchArrivalsUpstreamH e i hs) =
      \<lparr>refCache = (refCache hs)(i \<mapsto> \<lparr>data = res, timestamp = now e\<rparr>), cells = h3\<rparr>"
    unfolding res_def h3_def h2_def h1_def a_def name_def sts_def
    by (rule fetchArrivalsUpstreamH_success [OF Some])
  have f: "fst (fetchArrivalsUpstreamH e i hs) = res"
    using Some by (simp add: fetchArrivalsUpstreamH_result res_def name_def a_def)
  have p: "fst (fetchArrivalsUpstream e i s) = pure"
    unfolding pure_def name_def sts_def by (rule fetchArrivalsUpstream_success [OF Some])
  have l1: "limit h1 = Suc a" and e1: "arrayCells h1 a = []"
    by (simp_all add: h1_def a_def allocArray_def)
  have k: "keeps a (cells hs) h3"
    using keeps_fetchArrivalsUpstreamH [of a hs e i] by (simp add: s a_def)
  have k2: "keeps a h1 h2"
    unfolding h2_def by (rule keeps_collectArrivalsH) (simp_all add: l1)
  have l3: "a < limit h3"
    using k2 l1 by (simp add: h3_def limit_sortInPlace keeps_def)
  have "\<forall>r \<in> set (arrayCells h2 a). r < limit h2"
    unfolding h2_def by (rule collectArrivalsH_allocated) (simp_all add: l1 e1)
  then have el: "\<forall>r \<in> set (arrayCells h3 a). r < limit h3"
    by (simp add: h3_def limit_sortInPlace set_sortInPlace)
  have "readEntries h2 a = readEntries h1 a @ collectArrivals (now e) name sts"
    unfolding h2_def by (rule collectArrivalsH_read) (simp_all add: l1 e1)
  then have rd: "readEntries h3 a = sort_key arrival_time (collectArrivals (now e) name sts)"
    by (simp add: h3_def readEntries_sortInPlace) (simp add: readEntries_def e1)
  then have ar: "absResult h3 res = pure"
    by (simp add: absResult_def res_def pure_def)
  have al: "resultAllocated h3 res"
    using l3 el by (simp add: resultAllocated_def res_def)
  have old: "absCache (hs\<lparr>cells := h3\<rparr>) = absCache hs"
    using wf k unfolding a_def by (rule absCache_keeps)
  have "absCache \<lparr>refCache = (refCache hs)(i \<mapsto> \<lparr>data = res, timestamp = now e\<rparr>), cells = h3\<rparr> k =
        ((absCache hs)(i \<mapsto> \<lparr>data = pure, timestamp = now e\<rparr>)) k" for k
  proof (cases "k = i")
    case True
    then show ?thesis by (simp add: absCache_def ar)
  next
    case False
    have "absCache \<lparr>refCache = (refCache hs)(i \<mapsto> \<lparr>data = res, timestamp = now e\<rparr>), cells = h3\<rparr> k =
          absCache (hs\<lparr>cells := h3\<rparr>) k"
      using False by (simp add: absCache_def split: option.splits)
    with old False show ?thesis by simp
  qed
  then have "absCache \<lparr>refCache = (refCache hs)(i \<mapsto> \<lparr>data = res, timestamp = now e\<rparr>), cells = h3\<rparr> =
        (absCache hs)(i \<mapsto> \<lparr>data = pure, timestamp = now e\<rparr>)"
    by (rule ext)
  with Some ar al show ?thesis
    by (simp add: s f p)
qed

lemma refines_live: "refines hs s \<Longrightarrow> arrivalsLive e s i = arrivalsLiveH e hs i"
  by (simp add: refines_def arrivalsLive_def arrivalsLiveH_def absCache_def split: option.splits)

lemma fetchSingleH_hit:
  "arrivalsLiveH e hs i \<Longrightarrow>
   fetchSingleStationArrivalsH e i hs = (data (the (refCache hs i)), hs)"
  by (simp add: fetchSingleStationArrivalsH_def arrivalsLiveH_def split: option.splits)

lemma fetchSingleH_miss:
  "\<not> arrivalsLiveH e hs i \<Longrightarrow>
   fetchSingleStationArrivalsH e i hs = fetchArrivalsUpstreamH e i hs"
  by (simp add: fetchSingleStationArrivalsH_def arrivalsLiveH_def split: option.splits)

lemma fetchSingleH_refines:
  assumes r: "refines hs s"
  shows "absResult (cells (snd (fetchSingleStationArrivalsH e i hs)))
           (fst (fetchSingleStationArrivalsH e i hs)) = fst (fetchSingleStationArrivals e i s) \<and>
         refines (snd (fetchSingleStationArrivalsH e i hs)) (snd (fetchSingleStationArrivals e i s)) \<and>
         resultAllocated (cells (snd (fetchSingleStationArrivalsH e i hs)))
           (fst (fetchSingleStationArrivalsH e i hs))"
proof (cases "arrivalsLiveH e hs i")
  case True
  then have live: "arrivalsLive e s i" using r by (simp add: refines_live)
  from True obtain c where c: "refCache hs i = Some c"
    by (auto simp add: arrivalsLiveH_def split: option.splits)
  with r have "arrivalsCache s i = Some \<lparr>data = absResult (cells hs) (data c), timestamp = timestamp c\<rparr>"
    by (simp add: refines_def absCache_def)
  moreover from r c have "resultAllocated (cells hs) (data c)"
    by (simp add: refines_def cacheAllocated_def resultAllocated_def)
  ultimately show ?thesis
    using True live r c by (simp add: fetchSingleH_hit fetchSingle_hit)
next
  case False
  then have miss: "\<not> arrivalsLive e s i" using r by (simp add: refines_live)
  from r have wf: "cacheAllocated hs" and ac: "arrivalsCache s = absCache hs"
    by (simp_all add: refines_def)
  note u = fetchArrivalsUpstreamH_refines [OF wf, of e i s]
  have "cacheAllocated (snd (fetchArrivalsUpstreamH e i hs))"
    using wf by (rule fetchArrivalsUpstreamH_allocated)
  moreover have "arrivalsCache (snd (fetchArrivalsUpstream e i s)) =
                 absCache (snd (fetchArrivalsUpstreamH e i hs))"
    using u ac by (simp add: fetchArrivalsUpstream_cache split: option.splits)
  ultimately have "refines (snd (fetchArrivalsUpstreamH e i hs)) (snd (fetchArrivalsUpstream e i s))"
    by (simp add: refines_def)
  with u False miss show ?thesis
    by (simp add: fetchSingleH_miss fetchSingle_miss)
qed

lemma promiseAllMapH_refines:
  "refines hs s \<Longrightarrow>
   map (absResult (cells (snd (promiseAllMap (fetchSingleStationArrivalsH e) ids hs))))
       (fst (promiseAllMap (fetchSingleStationArrivalsH e) ids hs)) =
     fst (promiseAllMap (fetchSingleStationArrivals e) ids s) \<and>
   refines (snd (promiseAllMap (fetchSingleStationArrivalsH e) ids hs))
           (snd (promiseAllMap (fetchSingleStationArrivals e) ids s)) \<and>
   (\<forall>r \<in> set (fst (promiseAllMap (fetchSingleStationArrivalsH e) ids hs)).
      resultAllocated (cells (snd (promiseAllMap (fetchSingleStationArrivalsH e) ids hs))) r)"
proof (induction ids arbitrary: hs s)
  case Nil
  then show ?case by simp
next
  case (Cons i ids)
  define R1 where "R1 = fetchSingleStationArrivalsH e i hs"
  define P1 where "P1 = fetchSingleStationArrivals e i s"
  define R2 where "R2 = promiseAllMap (fetchSingleStationArrivalsH e) ids (snd R1)"
  define P2 where "P2 = promiseAllMap (fetchSingleStationArrivals e) ids (snd P1)"
  from fetchSingleH_refines [OF Cons.prems, of e i]
  have a1: "absResult (cells (snd R1)) (fst R1) = fst P1"
    and r1: "refines (snd R1) (snd P1)"
    and al1: "resultAllocated (cells (snd R1)) (fst R1)"
    by (simp_all add: R1_def P1_def)
  from Cons.IH [OF r1]
  have a2: "map (absResult (cells (snd R2))) (fst R2) = fst P2"
    and r2: "refines (snd R2) (snd P2)"
    and al2: "\<forall>r \<in> set (fst R2). resultAllocated (cells (snd R2)) r"
    by (simp_all add: R2_def P2_def)
  have k: "keeps (limit (cells (snd R1))) (cells (snd R1)) (cells (snd R2))"
    unfolding R2_def by (rule keeps_promiseAllMapH) simp
  from resultAllocated_keeps [OF al1 k]
  have al1': "resultAllocated (cells (snd R2)) (fst R1)"
    and a1': "absResult (cells (snd R2)) (fst R1) = fst P1"
    using a1 by simp_all
  have eqR: "promiseAllMap (fetchSingleStationArrivalsH e) (i # ids) hs = (fst R1 # fst R2, snd R2)"
    by (simp add: split_beta R1_def R2_def)
  have eqP: "promiseAllMap (fetchSingleStationArrivals e) (i # ids) s = (fst P1 # fst P2, snd P2)"
    by (simp add: split_beta P1_def P2_def)
  from a1' a2 r2 al1' al2 show ?case
    unfolding eqR eqP by simp
qed

lemma readEntries_allocArray:
  "readEntries (snd (allocArray xs h)) (fst (allocArray xs h)) = map (entryCells h) xs"
  by (simp add: readEntries_def allocArray_def)

lemma mergeResultsH_read:
  "a < limit h \<Longrightarrow> \<forall>x \<in> set (arrayCells h a). x < limit h \<Longrightarrow>
   \<forall>r \<in> set rs. resultAllocated h r \<Longrightarrow>
   fst (mergeResultsH rs name a h) =
     fst (mergeResults (map (absResult h) rs) name (readEntries h a)) \<and>
   readEntries (snd (snd (mergeResultsH rs name a h))) (fst (snd (mergeResultsH rs name a h))) =
     snd (mergeResults (map (absResult h) rs) name (readEntries h a)) \<and>
   fst (snd (mergeResultsH rs name a h)) < limit (snd (snd (mergeResultsH rs name a h))) \<and>
   (\<forall>x \<in> set (arrayCells (snd (snd (mergeResultsH rs name a h))) (fst (snd (mergeResultsH rs name a h)))).
      x < limit (snd (snd (mergeResultsH rs name a h))))"
proof (induction rs arbitrary: name a h)
  case Nil
  then show ?case by simp
next
  case (Cons r rs)
  define xs where "xs = arrayCells h a @ arrayCells h (ref_arrivals r)"
  define h1 where "h1 = snd (allocArray xs h)"
  define a1 where "a1 = fst (allocArray xs h)"
  define name1 where "name1 = (if name = [] \<and> ref_stationName r \<noteq> [] then ref_stationName r else name)"
  have step: "mergeResultsH (r # rs) name a h = mergeResultsH rs name1 a1 h1"
    by (simp add: split_beta xs_def h1_def a1_def name1_def)
  from Cons.prems(3) have r: "resultAllocated h r" and rs: "\<forall>r \<in> set rs. resultAllocated h r"
    by simp_all
  have xs: "\<forall>x \<in> set xs. x < limit h"
    using Cons.prems(2) r by (auto simp add: xs_def resultAllocated_def)
  have l1: "a1 < limit h1" by (simp add: a1_def h1_def allocArray_def)
  have e1: "\<forall>x \<in> set (arrayCells h1 a1). x < limit h1"
    using xs by (auto simp add: a1_def h1_def allocArray_def)
  have k: "keeps (limit h) h h1" unfolding h1_def by (simp add: keeps_allocArray)
  have rs1: "\<forall>r \<in> set rs. resultAllocated h1 r"
    using rs resultAllocated_keeps [OF _ k] by blast
  have abs1: "map (absResult h1) rs = map (absResult h) rs"
    using rs resultAllocated_keeps [OF _ k] by (intro map_cong) auto
  have rd1: "readEntries h1 a1 = readEntries h a @ arrivals (absResult h r)"
    using readEntries_allocArray [of xs h]
    by (simp add: h1_def a1_def xs_def readEntries_def absResult_def)
  have pure: "mergeResults (map (absResult h) (r # rs)) name (readEntries h a) =
              mergeResults (map (absResult h1) rs) name1 (readEntries h1 a1)"
    by (simp add: abs1 rd1 name1_def absResult_def)
  from Cons.IH [OF l1 e1 rs1, of name1] show ?case
    unfolding step pure by simp
qed

lemma mergeTailH_read:
  assumes rs: "\<forall>r \<in> set rs. resultAllocated h r"
  shows "fst (mergeTailH rs h) = fst (mergeResults (map (absResult h) rs) [] []) \<and>
    readEntries (snd (snd (mergeTailH rs h))) (fst (snd (mergeTailH rs h))) =
      sort_key arrival_time (snd (mergeResults (map (absResult h) rs) [] [])) \<and>
    fst (snd (mergeTailH rs h)) < limit (snd (snd (mergeTailH rs h))) \<and>
    (\<forall>x \<in> set (arrayCells (snd (snd (mergeTailH rs h))) (fst (snd (mergeTailH rs h)))).
       x < limit (snd (snd (mergeTailH rs h))))"
proof -
  define h0 where "h0 = snd (allocArray [] h)"
  define a0 where "a0 = fst (allocArray [] h)"
  define m where "m = mergeResultsH rs [] a0 h0"
  have t: "mergeTailH rs h = (fst m, fst (snd m), sortInPlace (fst (snd m)) (snd (snd m)))"
    by (simp add: mergeTailH_def split_beta m_def a0_def h0_def)
  have l0: "a0 < limit h0" and e0: "\<forall>x \<in> set (arrayCells h0 a0). x < limit h0"
    and rd0: "readEntries h0 a0 = []"
    by (simp_all add: a0_def h0_def allocArray_def readEntries_def)
  have k: "keeps (limit h) h h0" unfolding h0_def by (simp add: keeps_allocArray)
  have rs0: "\<forall>r \<in> set rs. resultAllocated h0 r"
    using rs resultAllocated_keeps [OF _ k] by blast
  have abs0: "map (absResult h0) rs = map (absResult h) rs"
    using rs resultAllocated_keeps [OF _ k] by (intro map_cong) auto
  from mergeResultsH_read [OF l0 e0 rs0, of "[]"]
  have n: "fst m = fst (mergeResults (map (absResult h) rs) [] [])"
    and rd: "readEntries (snd (snd m)) (fst (snd m)) = snd (mergeResults (map (absResult h) rs) [] [])"
    and l: "fst (snd m) < limit (snd (snd m))"
    and el: "\<forall>x \<in> set (arrayCells (snd (snd m)) (fst (snd m))). x < limit (snd (snd m))"
    by (simp_all add: m_def abs0 rd0)
  from n rd l el show ?thesis
    unfolding t by (simp add: readEntries_sortInPlace limit_sortInPlace set_sortInPlace)
qed

lemma fetchMulti_pure:
  "fst (fetchMultiStationArrivals e ids s) =
     \<lparr>stationName = fst (mergeResults (fst (promiseAllMap (fetchSingleStationArrivals e) ids s)) [] []),
      arrivals = sort_key arrival_time
        (snd (mergeResults (fst (promiseAllMap (fetchSingleStationArrivals e) ids s)) [] []))\<rparr>"
  by (simp add: fetchMultiStationArrivals_def split_beta)

lemma fetchMultiH_refines:
  assumes r: "refines hs s"
  shows "absResult (cells (snd (fetchMultiStationArrivalsH e ids hs)))
           (fst (fetchMultiStationArrivalsH e ids hs)) = fst (fetchMultiStationArrivals e ids s) \<and>
         refines (snd (fetchMultiStationArrivalsH e ids hs)) (snd (fetchMultiStationArrivals e ids s)) \<and>
         resultAllocated (cells (snd (fetchMultiStationArrivalsH e ids hs)))
           (fst (fetchMultiStationArrivalsH e ids hs))"
proof -
  define p where "p = promiseAllMap (fetchSingleStationArrivalsH e) ids hs"
  define q where "q = promiseAllMap (fetchSingleStationArrivals e) ids s"
  define t where "t = mergeTailH (fst p) (cells (snd p))"
  have F: "fetchMultiStationArrivalsH e ids hs =
      (\<lparr>ref_stationName = fst t, ref_arrivals = fst (snd t)\<rparr>, (snd p)\<lparr>cells := snd (snd t)\<rparr>)"
    by (simp add: fetchMultiH_tail Let_def t_def p_def)
  from promiseAllMapH_refines [OF r, of e ids]
  have a: "map (absResult (cells (snd p))) (fst p) = fst q"
    and rp: "refines (snd p) (snd q)"
    and al: "\<forall>r \<in> set (fst p). resultAllocated (cells (snd p)) r"
    by (simp_all add: p_def q_def)
  from mergeTailH_read [OF al]
  have n: "fst t = fst (mergeResults (fst q) [] [])"
    and rd: "readEntries (snd (snd t)) (fst (snd t)) = sort_key arrival_time (snd (mergeResults (fst q) [] []))"
    and l: "fst (snd t) < limit (snd (snd t))"
    and el: "\<forall>x \<in> set (arrayCells (snd (snd t)) (fst (snd t))). x < limit (snd (snd t))"
    by (simp_all add: t_def a)
  have k: "keeps (limit (cells (snd p))) (cells (snd p)) (snd (snd t))"
    unfolding t_def by (rule keeps_mergeTailH) simp
  from rp have wf: "cacheAllocated (snd p)" and ac: "arrivalsCache (snd q) = absCache (snd p)"
    by (simp_all add: refines_def)
  have "cacheAllocated ((snd p)\<lparr>cells := snd (snd t)\<rparr>)"
    using wf k by (rule cacheAllocated_keeps)
  moreover have "absCache ((snd p)\<lparr>cells := snd (snd t)\<rparr>) = absCache (snd p)"
    using wf k by (rule absCache_keeps)
  ultimately have ref: "refines ((snd p)\<lparr>cells := snd (snd t)\<rparr>) (snd (fetchMultiStationArrivals e ids s))"
    using ac by (simp add: refines_def fetchMulti_state q_def)
  from n rd l el ref show ?thesis
    unfolding F by (simp add: absResult_def resultAllocated_def fetchMulti_pure q_def)
qed

lemma mapWithStatusH_read:
  "\<forall>r \<in> set rs. r < limit h \<Longrightarrow>
   map (entryCells (snd (mapWithStatusH st rs h))) (fst (mapWithStatusH st rs h)) =
     map (withStatus st) (map (entryCells h) rs)"
proof (induction rs arbitrary: h)
  case Nil
  show ?case by simp
next
  case (Cons r rs)
  define v where "v = withStatus st (entryCells h r)"
  define h1 where "h1 = snd (allocEntry v h)"
  define r' where "r' = fst (allocEntry v h)"
  define m where "m = mapWithStatusH st rs h1"
  have step: "mapWithStatusH st (r # rs) h = (r' # fst m, snd m)"
    by (simp add: split_beta m_def h1_def r'_def v_def)
  have l: "limit h1 = Suc (limit h)" and r'l: "r' = limit h" and at: "entryCells h1 r' = v"
    and same: "\<And>x. x < limit h \<Longrightarrow> entryCells h1 x = entryCells h x"
    by (simp_all add: h1_def r'_def allocEntry_def)
  from Cons.prems have rs: "\<forall>x \<in> set rs. x < limit h1" and rl: "r < limit h"
    by (simp_all add: l less_Suc_eq)
  have "map (entryCells (snd m)) (fst m) = map (withStatus st) (map (entryCells h1) rs)"
    unfolding m_def using rs by (rule Cons.IH)
  also have "map (entryCells h1) rs = map (entryCells h) rs"
    using Cons.prems same by (intro map_cong) simp_all
  finally have tail: "map (entryCells (snd m)) (fst m) = map (withStatus st) (map (entryCells h) rs)" .
  have "keeps (limit h1) h1 (snd m)"
    unfolding m_def by (rule keeps_mapWithStatusH) simp
  then have "entryCells (snd m) r' = entryCells h1 r'"
    by (simp add: keeps_def l r'l)
  with at tail show ?case
    unfolding step by (simp add: v_def)
qed

lemma applyRouteFilterH_read:
  "readEntries (snd (applyRouteFilterH rf a h)) (fst (applyRouteFilterH rf a h)) =
     applyRouteFilter rf (readEntries h a)"
  by (simp add: applyRouteFilterH_def applyRouteFilter_def readEntries_def allocArray_def
      filter_map o_def split: option.splits)

lemma map_slice0: "map f (slice0 xs n) = slice0 (map f xs) n"
  by (simp add: slice0_def take_map)

lemma respondTailH_read:
  assumes "\<forall>x \<in> set (arrayCells h a). x < limit h"
  shows "fst (respondTailH st rf mx a h) =
     map toView (slice0 (sort_key arrival_time
        (applyRouteFilter rf (map (withStatus st) (readEntries h a)))) mx)"
proof -
  define m where "m = mapWithStatusH st (arrayCells h a) h"
  define A1 where "A1 = allocArray (fst m) (snd m)"
  define F where "F = applyRouteFilterH rf (fst A1) (snd A1)"
  define h4 where "h4 = sortInPlace (fst F) (snd F)"
  define A3 where "A3 = allocArray (slice0 (arrayCells h4 (fst F)) mx) h4"
  have t: "fst (respondTailH st rf mx a h) = map toView (readEntries (snd A3) (fst A3))"
    by (simp add: respondTailH_def split_beta Let_def A3_def h4_def F_def A1_def m_def
        readEntries_def)
  have r1: "readEntries (snd A1) (fst A1) = map (withStatus st) (readEntries h a)"
    unfolding A1_def readEntries_allocArray
    using mapWithStatusH_read [OF assms, of st] by (simp add: m_def readEntries_def)
  have r2: "readEntries (snd F) (fst F) = applyRouteFilter rf (map (withStatus st) (readEntries h a))"
    unfolding F_def applyRouteFilterH_read r1 ..
  have r3: "readEntries h4 (fst F) =
      sort_key arrival_time (applyRouteFilter rf (map (withStatus st) (readEntries h a)))"
    unfolding h4_def readEntries_sortInPlace r2 ..
  have "readEntries (snd A3) (fst A3) = slice0 (readEntries h4 (fst F)) mx"
    unfolding A3_def readEntries_allocArray by (simp add: map_slice0 readEntries_def)
  with r3 t show ?thesis by simp
qed

lemma getArrivalsH_refines:
  assumes r: "refines hs s"
  shows "fst (getArrivalsH e d sid rf mx hs) = fst (getArrivals e d sid rf mx s) \<and>
         refines (snd (getArrivalsH e d sid rf mx hs)) (snd (getArrivals e d sid rf mx s))"
proof (cases "resolveComplex d sid")
  case (NotArray v)
  with r show ?thesis by (simp add: getArrivalsH_NotArray getArrivals_NotArray)
next
  case (IdArray ids)
  define f where "f = fetchMultiStationArrivalsH e ids hs"
  define g where "g = fetchMultiStationArrivals e ids s"
  define t where "t = respondTailH (fetchServiceStatus e) rf mx (ref_arrivals (fst f)) (cells (snd f))"
  have G: "getArrivalsH e d sid rf mx hs =
      (Inr \<lparr>r_stationName = ref_stationName (fst f), r_platformIds = ids, r_data = fst t\<rparr>,
       (snd f)\<lparr>cells := snd t\<rparr>)"
    by (simp add: getArrivalsH_tail [OF IdArray] Let_def t_def f_def)
  from fetchMultiH_refines [OF r, of e ids]
  have a: "absResult (cells (snd f)) (fst f) = fst g"
    and rf': "refines (snd f) (snd g)"
    and al: "resultAllocated (cells (snd f)) (fst f)"
    by (simp_all add: f_def g_def)
  from a have "stationName (absResult (cells (snd f)) (fst f)) = stationName (fst g)"
    and "arrivals (absResult (cells (snd f)) (fst f)) = arrivals (fst g)"
    by simp_all
  then have nm: "ref_stationName (fst f) = stationName (fst g)"
    and rd: "readEntries (cells (snd f)) (ref_arrivals (fst f)) = arrivals (fst g)"
    by (simp_all add: absResult_def)
  from al have "\<forall>x \<in> set (arrayCells (cells (snd f)) (ref_arrivals (fst f))). x < limit (cells (snd f))"
    by (simp add: resultAllocated_def)
  then have "fst t = map toView (slice0 (sort_key arrival_time
        (applyRouteFilter rf (map (withStatus (fetchServiceStatus e))
           (readEntries (cells (snd f)) (ref_arrivals (fst f)))))) mx)"
    unfolding t_def by (rule respondTailH_read)
  then have dt: "fst t = map toView (slice0 (rankedArrivals e ids rf s) mx)"
    by (simp add: rd rankedArrivals_def g_def)
  have k: "keeps (limit (cells (snd f))) (cells (snd f)) (snd t)"
    unfolding t_def by (rule keeps_respondTailH) simp
  from rf' have wf: "cacheAllocated (snd f)" and ac: "arrivalsCache (snd g) = absCache (snd f)"
    by (simp_all add: refines_def)
  have "cacheAllocated ((snd f)\<lparr>cells := snd t\<rparr>)"
    using wf k by (rule cacheAllocated_keeps)
  moreover have "absCache ((snd f)\<lparr>cells := snd t\<rparr>) = absCache (snd f)"
    using wf k by (rule absCache_keeps)
  moreover have "snd (getArrivals e d sid rf mx s) = snd g"
    by (simp add: getArrivals_IdArray [OF IdArray] g_def)
  ultimately have "refines ((snd f)\<lparr>cells := snd t\<rparr>) (snd (getArrivals e d sid rf mx s))"
    using ac by (simp add: refines_def)
  with nm dt show ?thesis
    unfolding G by (simp add: getArrivals_IdArray [OF IdArray] g_def)
qed

text \<open>
  Claim C9.  A request to \<open>getArrivals\<close> leaves every array and every entry object
  that existed before it exactly as it was: the status is written to new objects, and
  the merge, the filter, the sorts and the truncation work on arrays that the same
  request allocated.  A cache entry that is within its TTL at the time of the request is
  kept, with the same array reference.  So over every sequence of requests that all fall
  within the TTL of a platform's cache entry, reading the cached array gives the same
  entry addresses in the same order, and the same field values, as when the sequence
  started.  The cache of the freshly started server, and of every server state that
  follows, refers to allocated cells only.  What a request reads through these
  references is what the value functions of the first sections are given: when the
  value cache holds the entries that the heap cache refers to, both compute the same
  response, and the caches agree again afterwards.
\<close>

theorem cached_arrivals_not_mutated:
  assumes "cacheAllocated hs"
  shows
   "keeps (limit (cells hs)) (cells hs) (cells (snd (getArrivalsH e d sid rf mx hs))) \<and>
    cacheAllocated (snd (getArrivalsH e d sid rf mx hs)) \<and>
    cacheAllocated initialHeapServer \<and>
    (refCache hs k = Some c \<and> now e - timestamp c < CACHE_TTL \<longrightarrow>
       refCache (snd (getArrivalsH e d sid rf mx hs)) k = Some c \<and>
       arrayCells (cells (snd (getArrivalsH e d sid rf mx hs))) (ref_arrivals (data c)) =
         arrayCells (cells hs) (ref_arrivals (data c)) \<and>
       readEntries (cells (snd (getArrivalsH e d sid rf mx hs))) (ref_arrivals (data c)) =
         readEntries (cells hs) (ref_arrivals (data c))) \<and>
    (refCache hs k = Some c \<and> (\<forall>q \<in> set qs. now (req_env q) - timestamp c < CACHE_TTL) \<longrightarrow>
       refCache (serveAll d qs hs) k = Some c \<and>
       arrayCells (cells (serveAll d qs hs)) (ref_arrivals (data c)) =
         arrayCells (cells hs) (ref_arrivals (data c)) \<and>
       readEntries (cells (serveAll d qs hs)) (ref_arrivals (data c)) =
         readEntries (cells hs) (ref_arrivals (data c))) \<and>
    (arrivalsCache s = absCache hs \<longrightarrow>
       fst (getArrivalsH e d sid rf mx hs) = fst (getArrivals e d sid rf mx s) \<and>
       arrivalsCache (snd (getArrivals e d sid rf mx s)) = absCache (snd (getArrivalsH e d sid rf mx hs)))"
proof -
  have a: "keeps (limit (cells hs)) (cells hs) (cells (snd (getArrivalsH e d sid rf mx hs)))"
    by (rule keeps_getArrivalsH) simp
  have b: "cacheAllocated (snd (getArrivalsH e d sid rf mx hs))"
    using assms by (rule getArrivalsH_allocated)
  let ?q = "\<lparr>req_env = e, req_station = sid, req_routes = rf, req_max = mx\<rparr>"
  have one: "refCache hs k = Some c \<and> now e - timestamp c < CACHE_TTL \<longrightarrow>
       refCache (snd (getArrivalsH e d sid rf mx hs)) k = Some c \<and>
       arrayCells (cells (snd (getArrivalsH e d sid rf mx hs))) (ref_arrivals (data c)) =
         arrayCells (cells hs) (ref_arrivals (data c)) \<and>
       readEntries (cells (snd (getArrivalsH e d sid rf mx hs))) (ref_arrivals (data c)) =
         readEntries (cells hs) (ref_arrivals (data c))"
    using serve_keeps_entry [OF assms, of k c ?q d] by (simp add: serve_def)
  have many: "refCache hs k = Some c \<and> (\<forall>q \<in> set qs. now (req_env q) - timestamp c < CACHE_TTL) \<longrightarrow>
       refCache (serveAll d qs hs) k = Some c \<and>
       arrayCells (cells (serveAll d qs hs)) (ref_arrivals (data c)) =
         arrayCells (cells hs) (ref_arrivals (data c)) \<and>
       readEntries (cells (serveAll d qs hs)) (ref_arrivals (data c)) =
         readEntries (cells hs) (ref_arrivals (data c))"
    using serveAll_keeps_entry [OF assms, of k c qs d] by blast
  have same: "arrivalsCache s = absCache hs \<longrightarrow>
       fst (getArrivalsH e d sid rf mx hs) = fst (getArrivals e d sid rf mx s) \<and>
       arrivalsCache (snd (getArrivals e d sid rf mx s)) = absCache (snd (getArrivalsH e d sid rf mx hs))"
    using assms getArrivalsH_refines [of hs s e d sid rf mx] by (simp add: refines_def)
  from a b cacheAllocated_initial one many same show ?thesis by blast
qed

lemma example_heap_after_fetch:
  "snd (fetchSingleStationArrivalsH exampleEnv ''101'' initialHeapServer) = exampleHeapServer"
  by (simp add: fetchSingleStationArrivalsH_def fetchArrivalsUpstreamH_def initialHeapServer_def
      emptyHeap_def exampleEnv_def exampleStops_def exampleStopTime_def stopTimeEntry_def
      parseInt_defs js_or_def arrivalMinutes_div allocArray_def allocEntry_def push_def
      sortInPlace_def exampleHeapServer_def exampleEntry1_def Let_def)

lemma example_heap_allocated: "cacheAllocated exampleHeapServer"
  by (simp add: cacheAllocated_def exampleHeapServer_def)

theorem cached_arrivals_not_mutated_witness:
  "snd (fetchSingleStationArrivalsH exampleEnv ''101'' initialHeapServer) = exampleHeapServer \<and>
   cacheAllocated exampleHeapServer \<and>
   refCache exampleHeapServer ''101'' =
     Some \<lparr>data = \<lparr>ref_stationName = ''Union Sq'', ref_arrivals = 0\<rparr>, timestamp = 1000000\<rparr> \<and>
   now exampleEnvLater - 1000000 < CACHE_TTL \<and> now exampleEnvAlerts - 1000000 < CACHE_TTL \<and>
   readEntries (cells exampleHeapServer) 0 = [exampleEntry1] \<and>
   readEntries (cells (snd (getArrivalsH exampleEnvLater exampleDirectory ''R20'' None 30
      exampleHeapServer))) 0 = [exampleEntry1] \<and>
   refCache (serveAll exampleDirectory exampleRequests exampleHeapServer) ''101'' =
     Some \<lparr>data = \<lparr>ref_stationName = ''Union Sq'', ref_arrivals = 0\<rparr>, timestamp = 1000000\<rparr> \<and>
   readEntries (cells (serveAll exampleDirectory exampleRequests exampleHeapServer)) 0 = [exampleEntry1] \<and>
   arrivalsCache initialServer = absCache initialHeapServer \<and>
   map_sum id r_data (fst (getArrivalsH exampleEnv exampleDirectory ''R20'' None 30 initialHeapServer)) =
     Inr [toView exampleEntry2, toView exampleEntry1]"
proof -
  let ?c = "\<lparr>data = \<lparr>ref_stationName = ''Union Sq'', ref_arrivals = 0\<rparr>, timestamp = 1000000\<rparr>"
  note t = cached_arrivals_not_mutated [OF example_heap_allocated,
      of exampleEnvLater exampleDirectory "''R20''" None 30 "''101''" ?c exampleRequests]
  have c: "refCache exampleHeapServer ''101'' = Some ?c"
    by (simp add: exampleHeapServer_def)
  have l1: "now exampleEnvLater - 1000000 < CACHE_TTL"
    by (simp add: exampleEnvLater_def CACHE_TTL_def)
  have l2: "now exampleEnvAlerts - 1000000 < CACHE_TTL"
    by (simp add: exampleEnvAlerts_def CACHE_TTL_def)
  have all: "\<forall>q \<in> set exampleRequests. now (req_env q) - timestamp ?c < CACHE_TTL"
    using l1 l2 by (simp add: exampleRequests_def)
  have r0: "readEntries (cells exampleHeapServer) 0 = [exampleEntry1]"
    by (simp add: readEntries_def exampleHeapServer_def)
  from t c l1 r0
  have r1: "readEntries (cells (snd (getArrivalsH exampleEnvLater exampleDirectory ''R20'' None 30
      exampleHeapServer))) 0 = [exampleEntry1]"
    by simp
  from t c all r0
  have r2: "refCache (serveAll exampleDirectory exampleRequests exampleHeapServer) ''101'' = Some ?c"
    and r3: "readEntries (cells (serveAll exampleDirectory exampleRequests exampleHeapServer)) 0 = [exampleEntry1]"
    by simp_all
  have i0: "arrivalsCache initialServer = absCache initialHeapServer"
    by (rule ext) (simp add: absCache_def initialServer_def initialHeapServer_def)
  note t0 = cached_arrivals_not_mutated [OF cacheAllocated_initial,
      of exampleEnv exampleDirectory "''R20''" None 30 "''101''" ?c "[]" initialServer]
  from t0 i0
  have r4: "map_sum id r_data (fst (getArrivalsH exampleEnv exampleDirectory ''R20'' None 30 initialHeapServer)) =
     Inr [toView exampleEntry2, toView exampleEntry1]"
    by (simp add: example_response slice0_def)
  from example_heap_after_fetch example_heap_allocated c l1 l2 r0 r1 r2 r3 i0 r4
  show ?thesis by simp
qed

end
